theory Spec2Isabelle
  imports Complex_Main "HOL-Library.Multiset"
begin

text \<open>
  A model of the example-construction pipeline of \<open>mptb/pretrain_dataset.py\<close> and of
  \<open>truncate_seq_pair\<close> in \<open>mptb/utils.py\<close>: the two feature encoders, the in-memory
  corpus loader with its sample index and negative draw, the resume order of the
  single-segment dataset, and the record skipping of the epoch cache.  Python lists are
  HOL lists, Python integers are \<open>int\<close>, exceptions are values, and every random choice
  is an explicit argument.
\<close>

section \<open>Python values and library functions used by the code\<close>

text \<open>
  Every exception the modelled code can raise is a value; a function that can raise
  returns \<open>error + 'a\<close> with \<open>Inl\<close> for the exception.  \<open>ValueError\<close> carries its
  message, since several distinct places raise it.
\<close>

datatype error =
    IndexError
  | ValueError string
  | TypeError
  | AssertionError
  | ZeroDivisionError
  | EOFError
  | AttributeError
  | UnboundLocalError

text \<open>\<open>list.pop()\<close> removes the last element and raises \<open>IndexError\<close> on an empty list.\<close>

definition pop :: "'a list \<Rightarrow> error + 'a list" where
  "pop xs = (if xs = [] then Inl IndexError else Inr (butlast xs))"

text \<open>\<open>xs[i]\<close>: a negative index counts from the end; out of range raises \<open>IndexError\<close>.\<close>

definition py_index :: "'a list \<Rightarrow> int \<Rightarrow> error + 'a" where
  "py_index xs i =
     (if 0 \<le> i \<and> i < int (length xs) then Inr (xs ! nat i)
      else if i < 0 \<and> - int (length xs) \<le> i then Inr (xs ! nat (int (length xs) + i))
      else Inl IndexError)"

text \<open>\<open>xs[:k]\<close>: a negative \<open>k\<close> drops \<open>-k\<close> elements from the end.\<close>

definition py_take :: "int \<Rightarrow> 'a list \<Rightarrow> 'a list" where
  "py_take k xs = (if 0 \<le> k then take (nat k) xs else take (length xs - nat (- k)) xs)"

text \<open>\<open>[x] * n\<close>: the empty list when \<open>n \<le> 0\<close>.\<close>

definition py_repeat :: "'a \<Rightarrow> int \<Rightarrow> 'a list" where
  "py_repeat x n = replicate (nat n) x"

text \<open>
  \<open>int(round(x))\<close>: Python 3 rounds to the nearest integer, a tie to the even one.
  The source computes \<open>len(tokens) * masked_lm_prob\<close> in binary floating point; the
  model computes the product exactly in the rationals.  For the default
  \<open>masked_lm_prob = 0.15\<close> the two agree on every length below \<open>2^50\<close>: the exact product
  is a multiple of \<open>1/20\<close>, so it is either a tie \<open>k + 1/2\<close> (which the floating-point
  product, off by a relative \<open>2^-54\<close> at most, also rounds to) or at least \<open>1/20\<close> away
  from one.
\<close>

definition py_round :: "rat \<Rightarrow> int" where
  "py_round x =
     (let f = \<lfloor>x\<rfloor>; d = x - of_int f
      in if d < 1 / 2 then f
         else if 1 / 2 < d then f + 1
         else if even f then f else f + 1)"

text \<open>
  \<open>random.randint(lo, hi)\<close> raises \<open>ValueError\<close> on an empty range and otherwise returns
  some value of \<open>[lo, hi]\<close>; the natural number \<open>r\<close> is the generator's draw.
  \<open>random.randrange(n)\<close> likewise, on \<open>[0, n)\<close>.
\<close>

definition randint :: "int \<Rightarrow> int \<Rightarrow> nat \<Rightarrow> error + int" where
  "randint lo hi r =
     (if hi < lo then Inl (ValueError ''empty range for randrange()'')
      else Inr (lo + int r mod (hi - lo + 1)))"

definition randrange :: "nat \<Rightarrow> nat \<Rightarrow> error + nat" where
  "randrange n r =
     (if n = 0 then Inl (ValueError ''empty range for randrange()'') else Inr (r mod n))"

text \<open>
  \<open>random.shuffle(x)\<close> is the Fisher-Yates loop
  \<^verbatim>\<open>
  for i in reversed(range(1, len(x))):
      j = randbelow(i + 1)
      x[i], x[j] = x[j], x[i]
  \<close>
  where \<open>draw i\<close> is the generator's draw at index \<open>i\<close>.
\<close>

fun shuffle_from :: "(nat \<Rightarrow> nat) \<Rightarrow> nat \<Rightarrow> 'a list \<Rightarrow> 'a list" where
  "shuffle_from draw 0 x = x"
| "shuffle_from draw (Suc i) x =
     (let j = draw (Suc i) mod (Suc i + 1)
      in shuffle_from draw i (x[Suc i := x ! j, j := x ! Suc i]))"

definition shuffle :: "(nat \<Rightarrow> nat) \<Rightarrow> 'a list \<Rightarrow> 'a list" where
  "shuffle draw x = shuffle_from draw (length x - 1) x"

text \<open>
  \<open>numpy.array_split(ary, n)\<close> raises \<open>ValueError\<close> when \<open>n \<le> 0\<close>; otherwise it cuts
  \<open>ary\<close> into \<open>n\<close> consecutive sections, the first \<open>len(ary) % n\<close> of size
  \<open>len(ary) // n + 1\<close> and the others of size \<open>len(ary) // n\<close>.
\<close>

fun sections :: "nat list \<Rightarrow> 'a list \<Rightarrow> 'a list list" where
  "sections [] ary = []"
| "sections (k # ks) ary = take k ary # sections ks (drop k ary)"

definition array_split :: "'a list \<Rightarrow> int \<Rightarrow> error + 'a list list" where
  "array_split ary n =
     (if n \<le> 0 then Inl (ValueError ''number sections must be larger than 0.'')
      else
        (let Nsections = nat n;
             Neach_section = length ary div Nsections;
             extras = length ary mod Nsections
         in Inr (sections (replicate extras (Neach_section + 1)
                            @ replicate (Nsections - extras) Neach_section) ary)))"

text \<open>
  \<open>list(dict.fromkeys(xs))\<close> keeps the first occurrence of every element, in order.
\<close>

fun fromkeys :: "'a list \<Rightarrow> 'a list \<Rightarrow> 'a list" where
  "fromkeys seen [] = []"
| "fromkeys seen (x # xs) =
     (if x \<in> set seen then fromkeys seen xs else x # fromkeys (x # seen) xs)"

definition dict_fromkeys :: "'a list \<Rightarrow> 'a list" where
  "dict_fromkeys xs = fromkeys [] xs"

text \<open>
  \<open>str.strip()\<close> removes leading and trailing whitespace.  A \<open>char\<close> is one byte here,
  so the whitespace characters are those of Python's below 256.
\<close>

definition is_space :: "char \<Rightarrow> bool" where
  "is_space c = (of_char c \<in> {9, 10, 11, 12, 13, 28, 29, 30, 31, 32, 133, 160 :: nat})"

definition strip :: "string \<Rightarrow> string" where
  "strip s = rev (dropWhile is_space (rev (dropWhile is_space s)))"

section \<open>\<open>mptb/utils.py\<close>: \<open>truncate_seq_pair\<close>\<close>

text \<open>
  \<^verbatim>\<open>
  def truncate_seq_pair(tokens_a, tokens_b, max_length):
      while True:
          total_length = len(tokens_a) + len(tokens_b)
          if total_length <= max_length:
              break
          if len(tokens_a) > len(tokens_b):
              tokens_a.pop()
          else:
              tokens_b.pop()
  \<close>
  The lists are mutated in place; the model returns the two final lists.
\<close>

function truncate_seq_pair :: "'a list \<Rightarrow> 'a list \<Rightarrow> int \<Rightarrow> error + ('a list \<times> 'a list)" where
  "truncate_seq_pair tokens_a tokens_b max_length =
     (if int (length tokens_a + length tokens_b) \<le> max_length then Inr (tokens_a, tokens_b)
      else if length tokens_a > length tokens_b then
        (case pop tokens_a of
           Inl e \<Rightarrow> Inl e
         | Inr a' \<Rightarrow> truncate_seq_pair a' tokens_b max_length)
      else
        (case pop tokens_b of
           Inl e \<Rightarrow> Inl e
         | Inr b' \<Rightarrow> truncate_seq_pair tokens_a b' max_length))"
  by pat_completeness auto
termination
  by (relation "measure (\<lambda>(a, b, L). length a + length b)")
     (auto simp: pop_def split: if_splits)

declare truncate_seq_pair.simps [simp del]


section \<open>\<open>mptb/pretrain_dataset.py\<close>: the feature encoders\<close>

text \<open>
  The reserved token ids \<open>self.pad_id\<close>, \<open>self.cls_id\<close>, \<open>self.sep_id\<close>, \<open>self.mask_id\<close>
  of a dataset object.
\<close>

record ids =
  pad_id :: int
  cls_id :: int
  sep_id :: int
  mask_id :: int

text \<open>
  The random choices of one call of \<open>convert_example_to_features\<close>, in the order the
  code draws them.  \<open>short_seq\<close> is \<open>None\<close> when \<open>random() < short_seq_prob\<close> is false and
  \<open>Some r\<close> when it is true, with \<open>r\<close> the draw of \<open>randint\<close>; \<open>shuffle_draw\<close> feeds
  \<open>shuffle\<close>; \<open>substitution k\<close> is the outcome of the two \<open>random()\<close> tests (and of
  \<open>get_random_token_id()\<close>) at the \<open>k\<close>-th visited position; \<open>np.random.geometric(0.2)\<close>
  returns \<open>geometric + 1\<close>, a positive integer.
\<close>

datatype subst = Mask | Random int | Keep

record rng =
  short_seq :: "nat option"
  shuffle_draw :: "nat \<Rightarrow> nat"
  substitution :: "nat \<Rightarrow> subst"
  geometric :: nat

text \<open>
  The fourth component of the returned list is the label passed in (two-segment
  dataset) or the empty list \<open>[]\<close> (single-segment dataset).
\<close>

datatype next_label = Label int | EmptyList

record feature =
  input_ids :: "int list"
  segment_ids :: "int list"
  input_mask :: "int list"
  is_next_label :: next_label
  label_ids :: "int list"

text \<open>
  \<^verbatim>\<open>
  if random() < short_seq_prob:
      target_max_pos = randint(2, target_max_pos)
  \<close>
\<close>

definition short_target :: "rng \<Rightarrow> int \<Rightarrow> error + int" where
  "short_target R target_max_pos =
     (case short_seq R of None \<Rightarrow> Inr target_max_pos | Some r \<Rightarrow> randint 2 target_max_pos r)"

text \<open>
  \<^verbatim>\<open>mask_prediction = int(round(len(tokens) * masked_lm_prob))
  mask_candidate_pos = [i for i, token in enumerate(tokens)
                        if token != self.cls_id and token != self.sep_id]\<close>
\<close>

definition mask_prediction :: "int list \<Rightarrow> rat \<Rightarrow> int" where
  "mask_prediction tokens masked_lm_prob = py_round (of_nat (length tokens) * masked_lm_prob)"

definition mask_candidate_pos :: "ids \<Rightarrow> int list \<Rightarrow> nat list" where
  "mask_candidate_pos S tokens =
     [i \<leftarrow> [0..<length tokens]. tokens ! i \<noteq> cls_id S \<and> tokens ! i \<noteq> sep_id S]"

text \<open>
  The body of both masking loops:
  \<^verbatim>\<open>
  if random() < 0.8:    # 80%
      tokens[pos] = self.mask_id
  elif random() < 0.5:  # 10%
      tokens[pos] = self.get_random_token_id()
  # 10% not mask and not modify
  \<close>
  Every \<open>pos\<close> the loops visit is a candidate position, hence below \<open>len(tokens)\<close>
  (lemmas \<open>pretrain_selected_in_range\<close> and \<open>span_words_in_range\<close> below), so the
  assignment never raises.
\<close>

definition substitute :: "ids \<Rightarrow> subst \<Rightarrow> nat \<Rightarrow> int list \<Rightarrow> int list" where
  "substitute S d pos tokens =
     (case d of
        Mask \<Rightarrow> tokens[pos := mask_id S]
      | Random t \<Rightarrow> tokens[pos := t]
      | Keep \<Rightarrow> tokens)"

subsection \<open>\<open>PretrainDataset.convert_example_to_features\<close> (two segments)\<close>

text \<open>
  Lines 422 to 437: the target length, the truncation and the special tokens.
  \<^verbatim>\<open>
  target_max_pos = max_pos - 3 if tokens_b else max_pos - 2
  tokens_a_ids = copy.copy(tokens_a)
  tokens_b_ids = copy.copy(tokens_b)
  if random() < short_seq_prob:
      target_max_pos = randint(2, target_max_pos)
  truncate_seq_pair(tokens_a_ids, tokens_b_ids, target_max_pos)
  tokens_a_ids.insert(0, self.cls_id)
  tokens_b_ids.append(self.sep_id)
  if len(tokens_b_ids) != 0:
      tokens_b_ids.append(self.sep_id)
  else:
      tokens_b_ids = []
  \<close>
\<close>

definition pretrain_special_tokens ::
  "ids \<Rightarrow> rng \<Rightarrow> int list \<Rightarrow> int list \<Rightarrow> int \<Rightarrow> error + (int list \<times> int list)" where
  "pretrain_special_tokens S R tokens_a tokens_b max_pos =
     (case short_target R (if tokens_b \<noteq> [] then max_pos - 3 else max_pos - 2) of
        Inl e \<Rightarrow> Inl e
      | Inr target_max_pos \<Rightarrow>
          (case truncate_seq_pair tokens_a tokens_b target_max_pos of
             Inl e \<Rightarrow> Inl e
           | Inr (a, b) \<Rightarrow>
               (let tokens_a_ids = cls_id S # a;
                    tokens_b_ids = b @ [sep_id S];
                    tokens_b_ids =
                      (if length tokens_b_ids \<noteq> 0 then tokens_b_ids @ [sep_id S] else [])
                in Inr (tokens_a_ids, tokens_b_ids))))"

text \<open>
  Lines 445 to 455: the positions the loop visits are
  \<open>mask_candidate_pos[:mask_prediction]\<close> after the shuffle.
\<close>

definition pretrain_selected :: "ids \<Rightarrow> rng \<Rightarrow> int list \<Rightarrow> rat \<Rightarrow> nat list" where
  "pretrain_selected S R tokens masked_lm_prob =
     py_take (mask_prediction tokens masked_lm_prob)
       (shuffle (shuffle_draw R) (mask_candidate_pos S tokens))"

fun mask_each :: "ids \<Rightarrow> (nat \<Rightarrow> subst) \<Rightarrow> nat \<Rightarrow> nat list \<Rightarrow> int list \<Rightarrow> int list" where
  "mask_each S sub k [] tokens = tokens"
| "mask_each S sub k (pos # rest) tokens =
     mask_each S sub (Suc k) rest (substitute S (sub k) pos tokens)"

text \<open>
  The whole function; \<open>masked_lm_prob\<close> is the keyword argument (default \<open>0.15\<close>, which
  every caller in the repository uses).
\<close>

definition pretrain_convert_example_to_features ::
  "ids \<Rightarrow> rng \<Rightarrow> int list \<Rightarrow> int list \<Rightarrow> int \<Rightarrow> int \<Rightarrow> rat \<Rightarrow> error + feature" where
  "pretrain_convert_example_to_features S R tokens_a tokens_b is_next max_pos masked_lm_prob =
     (case pretrain_special_tokens S R tokens_a tokens_b max_pos of
        Inl e \<Rightarrow> Inl e
      | Inr (tokens_a_ids, tokens_b_ids) \<Rightarrow>
          (let tokens = tokens_a_ids @ tokens_b_ids;
               segments = replicate (length tokens_a_ids) 0 @ replicate (length tokens_b_ids) 1;
               tokens = mask_each S (substitution R) 0
                          (pretrain_selected S R tokens masked_lm_prob) tokens;
               mask = replicate (length tokens) 1;
               labels = tokens_a_ids @ tokens_b_ids;
               num_zero_pad = max_pos - int (length tokens)
           in Inr \<lparr>input_ids = tokens @ py_repeat (pad_id S) num_zero_pad,
                   segment_ids = segments @ py_repeat 0 num_zero_pad,
                   input_mask = mask @ py_repeat 0 num_zero_pad,
                   is_next_label = Label is_next,
                   label_ids = labels @ py_repeat (pad_id S) num_zero_pad\<rparr>))"

subsection \<open>\<open>OneSegmentDataset.convert_example_to_features\<close> (single segment, span mode)\<close>

text \<open>
  Lines 148 to 158.
  \<^verbatim>\<open>
  target_max_pos = max_pos - 2
  tokens_a_ids = copy.copy(tokens_a)
  if random() < short_seq_prob:
      target_max_pos = randint(2, target_max_pos)
  truncate_seq_pair(tokens_a_ids, [], target_max_pos)
  tokens_a_ids = [self.cls_id] + tokens_a_ids
  tokens_a_ids = tokens_a_ids + [self.sep_id]
  \<close>
\<close>

definition onesegment_special_tokens :: "ids \<Rightarrow> rng \<Rightarrow> int list \<Rightarrow> int \<Rightarrow> error + int list" where
  "onesegment_special_tokens S R tokens_a max_pos =
     (case short_target R (max_pos - 2) of
        Inl e \<Rightarrow> Inl e
      | Inr target_max_pos \<Rightarrow>
          (case truncate_seq_pair tokens_a [] target_max_pos of
             Inl e \<Rightarrow> Inl e
           | Inr (a, b) \<Rightarrow> Inr ([cls_id S] @ a @ [sep_id S])))"

text \<open>
  Lines 166 to 170: the span length and its two clamps.
  \<^verbatim>\<open>
  mask_length = np.random.geometric(0.2)
  if mask_length > self.max_words_length:
      mask_length = self.max_words_length
  if mask_length > mask_prediction:
      mask_length = mask_prediction
  \<close>
\<close>

definition span_mask_length :: "rng \<Rightarrow> int \<Rightarrow> int \<Rightarrow> int" where
  "span_mask_length R max_words_length mask_pred =
     (let mask_length = int (geometric R) + 1;
          mask_length = (if mask_length > max_words_length then max_words_length else mask_length);
          mask_length = (if mask_length > mask_pred then mask_pred else mask_length)
      in mask_length)"

text \<open>
  The section count \<open>int(len(mask_candidate_pos)/mask_length)\<close>, evaluated only when
  \<open>mask_length > 0\<close>: the quotient of two non-negative numbers, truncated.  (The source
  divides in floating point; below \<open>2^53\<close> the truncated quotient is the integer one.)
\<close>

definition span_sections :: "nat list \<Rightarrow> int \<Rightarrow> int" where
  "span_sections mask_candidate mask_length = int (length mask_candidate) div mask_length"

text \<open>
  Lines 175 to 188: the two nested loops, on the pair \<open>(tokens, masked)\<close>.
  \<^verbatim>\<open>
  masked = 0
  for words in mask_candidate_words:
      for pos in words:
          masked += 1
          (substitution at pos)
          if masked == mask_prediction:
              break
      if masked == mask_prediction:
          break
  \<close>
  \<open>masked\<close> counts the positions visited.
\<close>

fun span_inner ::
  "ids \<Rightarrow> (nat \<Rightarrow> subst) \<Rightarrow> int \<Rightarrow> nat list \<Rightarrow> int list \<times> int \<Rightarrow> int list \<times> int" where
  "span_inner S sub mask_pred [] (tokens, masked) = (tokens, masked)"
| "span_inner S sub mask_pred (pos # words) (tokens, masked) =
     (let masked' = masked + 1;
          tokens' = substitute S (sub (nat masked)) pos tokens
      in if masked' = mask_pred then (tokens', masked')
         else span_inner S sub mask_pred words (tokens', masked'))"

fun span_outer ::
  "ids \<Rightarrow> (nat \<Rightarrow> subst) \<Rightarrow> int \<Rightarrow> nat list list \<Rightarrow> int list \<times> int \<Rightarrow> int list \<times> int" where
  "span_outer S sub mask_pred [] st = st"
| "span_outer S sub mask_pred (words # rest) st =
     (let st' = span_inner S sub mask_pred words st
      in if snd st' = mask_pred then st' else span_outer S sub mask_pred rest st')"

text \<open>
  Lines 163 to 188.  The result is the masked token list and the final value of
  \<open>masked\<close> (\<open>0\<close> when \<open>mask_length \<le> 0\<close> and the loops are skipped).
\<close>

definition span_mask :: "ids \<Rightarrow> rng \<Rightarrow> int \<Rightarrow> rat \<Rightarrow> int list \<Rightarrow> error + (int list \<times> int)" where
  "span_mask S R max_words_length masked_lm_prob tokens =
     (let mask_pred = mask_prediction tokens masked_lm_prob;
          mask_candidate = mask_candidate_pos S tokens;
          mask_length = span_mask_length R max_words_length mask_pred
      in if mask_length > 0 then
           (case array_split mask_candidate (span_sections mask_candidate mask_length) of
              Inl e \<Rightarrow> Inl e
            | Inr mask_candidate_words \<Rightarrow>
                Inr (span_outer S (substitution R) mask_pred
                       (shuffle (shuffle_draw R) mask_candidate_words) (tokens, 0)))
         else Inr (tokens, 0))"

definition onesegment_convert_example_to_features ::
  "ids \<Rightarrow> rng \<Rightarrow> int \<Rightarrow> int list \<Rightarrow> int \<Rightarrow> rat \<Rightarrow> error + feature" where
  "onesegment_convert_example_to_features S R max_words_length tokens_a max_pos masked_lm_prob =
     (case onesegment_special_tokens S R tokens_a max_pos of
        Inl e \<Rightarrow> Inl e
      | Inr tokens_a_ids \<Rightarrow>
          (case span_mask S R max_words_length masked_lm_prob tokens_a_ids of
             Inl e \<Rightarrow> Inl e
           | Inr (tokens, masked) \<Rightarrow>
               (let num_zero_pad = max_pos - int (length tokens)
                in Inr \<lparr>input_ids = tokens @ py_repeat (pad_id S) num_zero_pad,
                        segment_ids = [],
                        input_mask = [],
                        is_next_label = EmptyList,
                        label_ids = tokens_a_ids @ py_repeat (pad_id S) num_zero_pad\<rparr>)))"


section \<open>\<open>mptb/pretrain_dataset.py\<close>: \<open>PretrainDataset\<close>\<close>

text \<open>
  The tokenizer is an external object; the datasets use its two methods \<open>tokenize\<close> and
  \<open>convert_tokens_to_ids\<close>.
\<close>

record tokenizer =
  tokenize :: "string \<Rightarrow> string list"
  convert_tokens_to_ids :: "string list \<Rightarrow> int list"

text \<open>
  \<^verbatim>\<open>self.pad_id = self.tokenizer.convert_tokens_to_ids(["[PAD]"])[0]\<close> and the three
  others.
\<close>

definition reserved_id :: "tokenizer \<Rightarrow> string \<Rightarrow> error + int" where
  "reserved_id T name = py_index (convert_tokens_to_ids T [name]) 0"

definition reserved_ids :: "tokenizer \<Rightarrow> error + ids" where
  "reserved_ids T =
     (case reserved_id T ''[PAD]'' of Inl e \<Rightarrow> Inl e | Inr p \<Rightarrow>
      (case reserved_id T ''[CLS]'' of Inl e \<Rightarrow> Inl e | Inr c \<Rightarrow>
       (case reserved_id T ''[SEP]'' of Inl e \<Rightarrow> Inl e | Inr s \<Rightarrow>
        (case reserved_id T ''[MASK]'' of Inl e \<Rightarrow> Inl e | Inr m \<Rightarrow>
           Inr \<lparr>pad_id = p, cls_id = c, sep_id = s, mask_id = m\<rparr>))))"

text \<open>An entry \<open>{"doc_id": d, "line": l}\<close> of \<open>self.sample_to_doc\<close>.\<close>

record sample =
  doc_id :: nat
  line :: nat

text \<open>
  The attributes of a \<open>PretrainDataset\<close>.  A document is a list of sentences, a sentence
  a list of token ids.
\<close>

record pretrain_dataset =
  max_pos :: int
  on_memory :: bool
  reserved :: ids
  all_documents :: "int list list list"
  sample_to_doc :: "sample list"
  corpus_lines :: nat
  num_docs :: nat
  current_doc :: nat
  current_random_doc :: nat

text \<open>
  \<^verbatim>\<open>
  def _load_text(self, doc, text):
      text = text.strip()
      if text == "":
          if len(doc) > 0:  # FIX to last rows ""...
              self.all_documents.append(doc)
              doc = []
              self.sample_to_doc.pop()
      else:
          sample = {"doc_id": len(self.all_documents), "line": len(doc)}
          self.sample_to_doc.append(sample)
          tokens = self.tokenizer.tokenize(text) if self.tokenizer is not None else text
          doc.append(self.tokenizer.convert_tokens_to_ids(tokens))
          self.corpus_lines += 1
      return doc
  \<close>
\<close>

definition close_doc :: "pretrain_dataset \<Rightarrow> int list list \<Rightarrow> error + pretrain_dataset" where
  "close_doc self doc =
     (case pop (sample_to_doc self) of
        Inl e \<Rightarrow> Inl e
      | Inr s \<Rightarrow> Inr (self\<lparr>all_documents := all_documents self @ [doc], sample_to_doc := s\<rparr>))"

definition load_text ::
  "tokenizer \<Rightarrow> pretrain_dataset \<Rightarrow> int list list \<Rightarrow> string
     \<Rightarrow> error + (int list list \<times> pretrain_dataset)" where
  "load_text T self doc text =
     (let text = strip text
      in if text = [] then
           (if length doc > 0 then
              (case close_doc self doc of Inl e \<Rightarrow> Inl e | Inr self' \<Rightarrow> Inr ([], self'))
            else Inr (doc, self))
         else
           Inr (doc @ [convert_tokens_to_ids T (tokenize T text)],
                self\<lparr>sample_to_doc :=
                       sample_to_doc self @ [\<lparr>doc_id = length (all_documents self), line = length doc\<rparr>],
                     corpus_lines := corpus_lines self + 1\<rparr>))"

text \<open>The loop \<^verbatim>\<open>for text in ...: doc = self._load_text(doc, text)\<close>.\<close>

fun load_all ::
  "tokenizer \<Rightarrow> string list \<Rightarrow> int list list \<times> pretrain_dataset
     \<Rightarrow> error + (int list list \<times> pretrain_dataset)" where
  "load_all T [] st = Inr st"
| "load_all T (text # rest) (doc, self) =
     (case load_text T self doc text of
        Inl e \<Rightarrow> Inl e
      | Inr st' \<Rightarrow> load_all T rest st')"

text \<open>
  \<open>PretrainDataset.__init__\<close>; \<open>file\<close> is the list of lines of the file at
  \<open>dataset_path\<close>.  The error message \<open>dataset_path + ' were not includes documents.'\<close>
  is itself a \<open>TypeError\<close> when \<open>dataset_path\<close> is \<open>None\<close>.

  In the branch that loads lazily from disk (neither documents nor \<open>on_memory\<close>), the
  counting loop executes \<open>self.num_docs += 1\<close> at the first blank line, or after the
  loop when the last line is not blank; \<open>self.num_docs\<close> has not been assigned on that
  path, so reading it raises \<open>AttributeError\<close>.  On an empty file the test after the
  loop reads the unbound loop variable \<open>line\<close>.
\<close>

definition no_documents_error :: "string option \<Rightarrow> error" where
  "no_documents_error dataset_path =
     (case dataset_path of
        None \<Rightarrow> TypeError
      | Some p \<Rightarrow> ValueError (p @ '' were not includes documents.''))"

definition pretrain_init ::
  "tokenizer \<Rightarrow> int \<Rightarrow> string option \<Rightarrow> string list \<Rightarrow> bool \<Rightarrow> string list
     \<Rightarrow> error + pretrain_dataset" where
  "pretrain_init T max_position dataset_path documents on_mem file =
     (if dataset_path = None \<and> length documents = 0 then
        Inl (ValueError ''dataset_path or documents require.'')
      else
        (case reserved_ids T of
           Inl e \<Rightarrow> Inl e
         | Inr S \<Rightarrow>
             (let self = \<lparr>max_pos = max_position, on_memory = on_mem, reserved = S,
                          all_documents = [], sample_to_doc = [], corpus_lines = 0,
                          num_docs = 0, current_doc = 0, current_random_doc = 0\<rparr>
              in if length documents > 0 \<or> on_mem then
                   (case load_all T (if length documents > 0 then documents else file) ([], self) of
                      Inl e \<Rightarrow> Inl e
                    | Inr (doc, self) \<Rightarrow>
                        (case (if length doc > 0 then close_doc self doc else Inr self) of
                           Inl e \<Rightarrow> Inl e
                         | Inr self \<Rightarrow>
                             (let self = self\<lparr>num_docs := length (all_documents self)\<rparr>
                              in if length (all_documents self) = 0
                                 then Inl (no_documents_error dataset_path)
                                 else Inr self)))
                 else if file = [] then Inl UnboundLocalError
                 else Inl AttributeError)))"

text \<open>\<open>__len__\<close>: \<^verbatim>\<open>return self.corpus_lines - self.num_docs - 1\<close>.\<close>

definition pretrain_len :: "pretrain_dataset \<Rightarrow> int" where
  "pretrain_len self = int (corpus_lines self) - int (num_docs self) - 1"

text \<open>
  \<^verbatim>\<open>
  def get_corpus_line(self, item):
      assert isinstance(item, int), 'item only support int(index) access.'
      assert item < self.corpus_lines, 'item index out range corpus.'
      if self.on_memory:
          sample = self.sample_to_doc[item]
          t1 = self.all_documents[sample["doc_id"]][sample["line"]]
          t2 = self.all_documents[sample["doc_id"]][sample["line"]+1]
          self.current_doc = sample["doc_id"]
          return t1, t2
      else:
          (reads self.file)
  \<close>
  No constructed object has a \<open>file\<close> attribute (the only assignment is in the branch of
  \<open>__init__\<close> that always raises), so the \<open>else\<close> branch raises \<open>AttributeError\<close> at its
  first read of \<open>self.file\<close>.
\<close>

definition get_corpus_line ::
  "pretrain_dataset \<Rightarrow> int \<Rightarrow> error + ((int list \<times> int list) \<times> pretrain_dataset)" where
  "get_corpus_line self item =
     (if \<not> item < int (corpus_lines self) then Inl AssertionError
      else if on_memory self then
        (case py_index (sample_to_doc self) item of Inl e \<Rightarrow> Inl e | Inr smp \<Rightarrow>
         (case py_index (all_documents self) (int (doc_id smp)) of Inl e \<Rightarrow> Inl e | Inr d1 \<Rightarrow>
          (case py_index d1 (int (line smp)) of Inl e \<Rightarrow> Inl e | Inr t1 \<Rightarrow>
           (case py_index (all_documents self) (int (doc_id smp)) of Inl e \<Rightarrow> Inl e | Inr d2 \<Rightarrow>
            (case py_index d2 (int (line smp) + 1) of Inl e \<Rightarrow> Inl e | Inr t2 \<Rightarrow>
               Inr ((t1, t2), self\<lparr>current_doc := doc_id smp\<rparr>))))))
      else Inl AttributeError)"

text \<open>
  \<open>get_random_line\<close>, for an object with \<open>on_memory\<close> set:
  \<^verbatim>\<open>
  for _ in range(10):
      if self.on_memory:
          rand_doc_idx = randrange(len(self.all_documents))
          rand_doc = self.all_documents[rand_doc_idx]
          line = rand_doc[randrange(len(rand_doc))]
      else:
          (reads self.random_file)
      if self.current_random_doc != self.current_doc:
          break
  return line
  \<close>
  \<open>draw i\<close> is the pair of generator draws of iteration \<open>i\<close>.  The \<open>else\<close> branch reads
  \<open>self.random_file\<close>, which no constructed object has; the model gives it as
  \<open>AttributeError\<close>.
\<close>

definition draw_line :: "pretrain_dataset \<Rightarrow> nat \<times> nat \<Rightarrow> error + int list" where
  "draw_line self d =
     (if on_memory self then
        (case randrange (length (all_documents self)) (fst d) of Inl e \<Rightarrow> Inl e | Inr rand_doc_idx \<Rightarrow>
         (case py_index (all_documents self) (int rand_doc_idx) of Inl e \<Rightarrow> Inl e | Inr rand_doc \<Rightarrow>
          (case randrange (length rand_doc) (snd d) of Inl e \<Rightarrow> Inl e | Inr l \<Rightarrow>
             py_index rand_doc (int l))))
      else Inl AttributeError)"

fun random_line_loop ::
  "pretrain_dataset \<Rightarrow> (nat \<Rightarrow> nat \<times> nat) \<Rightarrow> nat \<Rightarrow> nat \<Rightarrow> error + int list" where
  "random_line_loop self draw i 0 = draw_line self (draw i)"
| "random_line_loop self draw i (Suc remaining) =
     (case draw_line self (draw i) of
        Inl e \<Rightarrow> Inl e
      | Inr drawn \<Rightarrow>
          if current_random_doc self \<noteq> current_doc self then Inr drawn
          else random_line_loop self draw (Suc i) remaining)"

definition get_random_line :: "pretrain_dataset \<Rightarrow> (nat \<Rightarrow> nat \<times> nat) \<Rightarrow> error + int list" where
  "get_random_line self draw = random_line_loop self draw 0 9"

section \<open>\<open>mptb/pretrain_dataset.py\<close>: \<open>OneSegmentDataset\<close>\<close>

text \<open>
  The attributes of a \<open>OneSegmentDataset\<close> the claims are about: \<open>self.all_documents\<close>
  (here a document is one list of token ids), \<open>self.indices\<close>, and
  \<open>self.last_indices_path\<close>, which exists only on an object loaded from a pickle.
\<close>

record onesegment_dataset =
  os_all_documents :: "int list list"
  indices :: "nat list"
  last_indices_path :: "string option"

text \<open>
  \<^verbatim>\<open>
  def _load_text(self, text, stack):
      text = text.strip()
      if text == "":
          if len(stack) > 0:
              self.all_documents.append(self.tokenizer.convert_tokens_to_ids(stack))
              stack = []
      else:
          if self.sentence_stack:
              tokens = self.tokenizer.tokenize(text) if self.tokenizer is not None else text
              if len(stack) + len(tokens) > self.max_pos - 2:
                  self.all_documents.append(self.tokenizer.convert_tokens_to_ids(stack))
                  stack = []
                  return stack
              stack.extend(tokens)
              return stack
          else:
              tokens = self.tokenizer.tokenize(text) if self.tokenizer is not None else text
              self.all_documents.append(self.tokenizer.convert_tokens_to_ids(tokens))
      return stack
  \<close>
  The state is the pair of \<open>self.all_documents\<close> and \<open>stack\<close>.
\<close>

definition os_load_text ::
  "tokenizer \<Rightarrow> int \<Rightarrow> bool \<Rightarrow> int list list \<times> string list \<Rightarrow> string
     \<Rightarrow> int list list \<times> string list" where
  "os_load_text T max_position sentence_stack st text =
     (let docs = fst st; stack = snd st; text = strip text
      in if text = [] then
           (if length stack > 0 then (docs @ [convert_tokens_to_ids T stack], []) else (docs, stack))
         else if sentence_stack then
           (let tokens = tokenize T text
            in if int (length stack + length tokens) > max_position - 2
               then (docs @ [convert_tokens_to_ids T stack], [])
               else (docs, stack @ tokens))
         else (docs @ [convert_tokens_to_ids T (tokenize T text)], stack))"

text \<open>
  \<open>OneSegmentDataset.__init__\<close>.  \<open>pickled\<close> is the content of the file at \<open>pickle_path\<close>,
  \<open>sidecar\<close> the content of \<open>pickle_path + '.index'\<close> when that file exists, \<open>file\<close> the
  lines of the file at \<open>dataset_path\<close>, \<open>draw\<close> the generator draws of \<open>shuffle\<close>.
\<close>

definition onesegment_init ::
  "tokenizer \<Rightarrow> int \<Rightarrow> string option \<Rightarrow> string list \<Rightarrow> bool \<Rightarrow> string option
     \<Rightarrow> int list list \<Rightarrow> nat list option \<Rightarrow> string list \<Rightarrow> (nat \<Rightarrow> nat)
     \<Rightarrow> error + onesegment_dataset" where
  "onesegment_init T max_position dataset_path documents sentence_stack pickle_path
       pickled sidecar file draw =
     (case reserved_ids T of
        Inl e \<Rightarrow> Inl e
      | Inr S \<Rightarrow>
          (case pickle_path of
             Some pp \<Rightarrow>
               (let idx = shuffle draw [0..<length pickled];
                    idx = (case sidecar of
                             None \<Rightarrow> idx
                           | Some last_indices \<Rightarrow> dict_fromkeys (last_indices @ idx))
                in Inr \<lparr>os_all_documents = pickled, indices = idx,
                        last_indices_path = Some (pp @ ''.index'')\<rparr>)
           | None \<Rightarrow>
               (let docs =
                      (if length documents > 0 \<or> dataset_path \<noteq> None then
                         (let st = foldl (os_load_text T max_position sentence_stack) ([], [])
                                     (if length documents > 0 then documents else file)
                          in if length (snd st) > 0
                             then fst st @ [convert_tokens_to_ids T (snd st)]
                             else fst st)
                       else [])
                in if length docs = 0 then Inl (no_documents_error dataset_path)
                   else Inr \<lparr>os_all_documents = docs, indices = [0..<length docs],
                            last_indices_path = None\<rparr>)))"

text \<open>
  \<^verbatim>\<open>
  def dump_last_indices(self, steps):
      if hasattr(self, 'last_indices_path'):
          last_indices = steps % len(self.indices)
          with open(self.last_indices_path, "wb+") as f:
              pickle.dump(self.indices[last_indices:], f)
  \<close>
  The result is the list written to the sidecar file, \<open>None\<close> when nothing is written.
\<close>

definition dump_last_indices :: "onesegment_dataset \<Rightarrow> int \<Rightarrow> error + nat list option" where
  "dump_last_indices self steps =
     (case last_indices_path self of
        None \<Rightarrow> Inr None
      | Some p \<Rightarrow>
          if length (indices self) = 0 then Inl ZeroDivisionError
          else Inr (Some (drop (nat (steps mod int (length (indices self)))) (indices self))))"

section \<open>\<open>mptb/pretrain_dataset.py\<close>: \<open>PreTensorPretrainDataset\<close>\<close>

text \<open>
  The cache file is the list of the serialized records not yet read; \<open>pickle.load\<close>
  returns the next one and raises \<open>EOFError\<close> at the end of the file.
\<close>

definition pickle_load :: "'r list \<Rightarrow> error + ('r \<times> 'r list)" where
  "pickle_load f = (case f of [] \<Rightarrow> Inl EOFError | r # rest \<Rightarrow> Inr (r, rest))"

record 'r pretensor_dataset =
  file_rest :: "'r list"
  length_attr :: int

text \<open>The loop \<^verbatim>\<open>for i in range(last_step): _ = pickle.load(self.file)\<close>.\<close>

fun skip_records :: "nat \<Rightarrow> 'r list \<Rightarrow> error + 'r list" where
  "skip_records 0 f = Inr f"
| "skip_records (Suc n) f =
     (case pickle_load f of Inl e \<Rightarrow> Inl e | Inr (r, rest) \<Rightarrow> skip_records n rest)"

text \<open>
  \<^verbatim>\<open>
  def __init__(self, dataset_path=None, length=-1, last_step=-1):
      if length < 0:
          raise ValueError('length must be positive.')
      (open the file)
      self.length = length
      if last_step > 0:
          for i in range(last_step):
              _ = pickle.load(self.file)
          self.length - last_step

  def __len__(self):
      return self.length

  def __getitem__(self, item):
      pretensor = pickle.load(self.file)
      return pretensor[0][0], pretensor[1][0], pretensor[2][0], pretensor[3][0], pretensor[4][0]
  \<close>
  \<open>records\<close> is the content of the file at \<open>dataset_path\<close>.  The statement
  \<open>self.length - last_step\<close> computes a value and drops it.
\<close>

definition pretensor_init :: "'r list \<Rightarrow> int \<Rightarrow> int \<Rightarrow> error + 'r pretensor_dataset" where
  "pretensor_init records len last_step =
     (if len < 0 then Inl (ValueError ''length must be positive.'')
      else if last_step > 0 then
        (case skip_records (nat last_step) records of
           Inl e \<Rightarrow> Inl e
         | Inr rest \<Rightarrow> Inr \<lparr>file_rest = rest, length_attr = len\<rparr>)
      else Inr \<lparr>file_rest = records, length_attr = len\<rparr>)"

definition pretensor_len :: "'r pretensor_dataset \<Rightarrow> int" where
  "pretensor_len self = length_attr self"

text \<open>A record is a list of batches; \<open>pretensor[i][0]\<close> is the first entry of batch \<open>i\<close>.\<close>

definition first_of_batch :: "'t list list \<Rightarrow> int \<Rightarrow> error + 't" where
  "first_of_batch pretensor i =
     (case py_index pretensor i of Inl e \<Rightarrow> Inl e | Inr batch \<Rightarrow> py_index batch 0)"

definition pretensor_getitem ::
  "'t list list pretensor_dataset \<Rightarrow> int
     \<Rightarrow> error + (('t \<times> 't \<times> 't \<times> 't \<times> 't) \<times> 't list list pretensor_dataset)" where
  "pretensor_getitem self item =
     (case pickle_load (file_rest self) of
        Inl e \<Rightarrow> Inl e
      | Inr (pretensor, rest) \<Rightarrow>
          (case first_of_batch pretensor 0 of Inl e \<Rightarrow> Inl e | Inr x0 \<Rightarrow>
           (case first_of_batch pretensor 1 of Inl e \<Rightarrow> Inl e | Inr x1 \<Rightarrow>
            (case first_of_batch pretensor 2 of Inl e \<Rightarrow> Inl e | Inr x2 \<Rightarrow>
             (case first_of_batch pretensor 3 of Inl e \<Rightarrow> Inl e | Inr x3 \<Rightarrow>
              (case first_of_batch pretensor 4 of Inl e \<Rightarrow> Inl e | Inr x4 \<Rightarrow>
                 Inr ((x0, x1, x2, x3, x4), self\<lparr>file_rest := rest\<rparr>)))))))"


section \<open>Concrete inputs\<close>

text \<open>
  A small vocabulary: the four reserved tokens, and every other token mapped to ten plus
  its length; the tokenizer splits a line at its spaces.
\<close>

fun words :: "string \<Rightarrow> string \<Rightarrow> string list" where
  "words w [] = (if w = [] then [] else [w])"
| "words w (c # cs) =
     (if c = CHR '' '' then (if w = [] then words [] cs else w # words [] cs)
      else words (w @ [c]) cs)"

definition toy_id :: "string \<Rightarrow> int" where
  "toy_id t =
     (if t = ''[PAD]'' then 0 else if t = ''[CLS]'' then 2 else if t = ''[SEP]'' then 3
      else if t = ''[MASK]'' then 4 else 10 + int (length t))"

definition toy_tokenizer :: tokenizer where
  "toy_tokenizer = \<lparr>tokenize = words [], convert_tokens_to_ids = map toy_id\<rparr>"

definition toy_ids :: ids where
  "toy_ids = \<lparr>pad_id = 0, cls_id = 2, sep_id = 3, mask_id = 4\<rparr>"

text \<open>
  Random choices: no shortening, every shuffle draw \<open>0\<close>, every visited position left
  unchanged; the geometric draw is \<open>1\<close> in \<open>draws_one\<close> and \<open>2\<close> in \<open>draws_two\<close>.
\<close>

definition draws_one :: rng where
  "draws_one = \<lparr>short_seq = None, shuffle_draw = (\<lambda>i. 0), substitution = (\<lambda>k. Keep),
                 geometric = 0\<rparr>"

definition draws_two :: rng where
  "draws_two = \<lparr>short_seq = None, shuffle_draw = (\<lambda>i. 0), substitution = (\<lambda>k. Keep),
                 geometric = 1\<rparr>"

text \<open>
  Two loaded corpora: \<open>two_docs\<close> from the lines \<open>a\<close>, \<open>bb\<close>, blank, \<open>ccc\<close>, \<open>dddd\<close>,
  and \<open>single_lines\<close> from the lines \<open>a\<close>, blank, \<open>bb\<close> of the file \<open>corpus.txt\<close>.
\<close>

definition two_docs :: pretrain_dataset where
  "two_docs = \<lparr>max_pos = 8, on_memory = True, reserved = toy_ids,
                all_documents = [[[11], [12]], [[13], [14]]],
                sample_to_doc = [\<lparr>doc_id = 0, line = 0\<rparr>, \<lparr>doc_id = 1, line = 0\<rparr>],
                corpus_lines = 4, num_docs = 2, current_doc = 0, current_random_doc = 0\<rparr>"

definition single_lines :: pretrain_dataset where
  "single_lines = \<lparr>max_pos = 8, on_memory = True, reserved = toy_ids,
                    all_documents = [[[11]], [[12]]], sample_to_doc = [],
                    corpus_lines = 2, num_docs = 2, current_doc = 0, current_random_doc = 0\<rparr>"


section \<open>The sample index of a list of documents\<close>

text \<open>
  The locators of a loaded corpus, written directly: for each document in order, one
  locator for every sentence but the last.  \<open>doc_samples d n\<close> are the locators of the
  first \<open>n\<close> sentences of document \<open>d\<close>.  These are not part of the code; lemma
  \<open>pretrain_init_state\<close> shows that \<open>__init__\<close> builds exactly this list.
\<close>

definition doc_samples :: "nat \<Rightarrow> nat \<Rightarrow> sample list" where
  "doc_samples d n = map (\<lambda>l. \<lparr>doc_id = d, line = l\<rparr>) [0..<n]"

fun samples_from :: "nat \<Rightarrow> 'a list list \<Rightarrow> sample list" where
  "samples_from d [] = []"
| "samples_from d (doc # docs) = doc_samples d (length doc - 1) @ samples_from (Suc d) docs"

text \<open>The state of the loading loop: the open document \<open>doc\<close> and the object.\<close>

definition load_inv :: "int list list \<Rightarrow> pretrain_dataset \<Rightarrow> bool" where
  "load_inv doc self \<longleftrightarrow>
     sample_to_doc self
       = samples_from 0 (all_documents self) @ doc_samples (length (all_documents self)) (length doc)
     \<and> corpus_lines self = sum_list (map length (all_documents self)) + length doc
     \<and> [] \<notin> set (all_documents self)"


section \<open>Properties of \<open>truncate_seq_pair\<close>\<close>

lemma truncate_seq_pair_noop:
  "int (length a + length b) \<le> L \<Longrightarrow> truncate_seq_pair a b L = Inr (a, b)"
  by (subst truncate_seq_pair.simps) simp

lemma truncate_seq_pair_returns:
  "0 \<le> L \<Longrightarrow> \<exists>a' b'. truncate_seq_pair a b L = Inr (a', b') \<and> int (length a' + length b') \<le> L"
proof (induction a b L rule: truncate_seq_pair.induct)
  case (1 a b L)
  show ?case
  proof (cases "int (length a + length b) \<le> L")
    case True
    then show ?thesis by (simp add: truncate_seq_pair_noop)
  next
    case over: False
    show ?thesis
    proof (cases "length a > length b")
      case True
      then have ne: "a \<noteq> []" by auto
      then have p: "pop a = Inr (butlast a)" by (simp add: pop_def)
      from "1.IH"(1)[OF over True p "1.prems"] over True p show ?thesis
        by (subst truncate_seq_pair.simps) simp
    next
      case False
      with over "1.prems" have ne: "b \<noteq> []" by auto
      then have p: "pop b = Inr (butlast b)" by (simp add: pop_def)
      from "1.IH"(2)[OF over False p "1.prems"] over False p show ?thesis
        by (subst truncate_seq_pair.simps) simp
    qed
  qed
qed

text \<open>
  Whatever the bound, a returned pair fits it and consists of prefixes of the inputs.
\<close>

lemma truncate_seq_pair_Inr:
  "truncate_seq_pair a b L = Inr (a', b') \<Longrightarrow>
     int (length a' + length b') \<le> L \<and> set a' \<subseteq> set a \<and> set b' \<subseteq> set b"
proof (induction a b L rule: truncate_seq_pair.induct)
  case (1 a b L)
  show ?case
  proof (cases "int (length a + length b) \<le> L")
    case True
    with "1.prems" show ?thesis by (simp add: truncate_seq_pair_noop)
  next
    case over: False
    show ?thesis
    proof (cases "length a > length b")
      case True
      then have p: "pop a = Inr (butlast a)" by (auto simp: pop_def)
      from "1.prems" over True p have "truncate_seq_pair (butlast a) b L = Inr (a', b')"
        by (subst (asm) truncate_seq_pair.simps) simp
      from "1.IH"(1)[OF over True p this] show ?thesis
        by (auto dest: in_set_butlastD)
    next
      case False
      show ?thesis
      proof (cases "b = []")
        case True
        with "1.prems" over False show ?thesis
          by (subst (asm) truncate_seq_pair.simps) (simp add: pop_def)
      next
        case ne: False
        then have p: "pop b = Inr (butlast b)" by (simp add: pop_def)
        from "1.prems" over False p have "truncate_seq_pair a (butlast b) L = Inr (a', b')"
          by (subst (asm) truncate_seq_pair.simps) simp
        from "1.IH"(2)[OF over False p this] show ?thesis
          by (auto dest: in_set_butlastD)
      qed
    qed
  qed
qed

text \<open>
  C3.  For all token lists \<open>a\<close>, \<open>b\<close> and every integer \<open>L \<ge> 0\<close>, \<open>truncate_seq_pair\<close>
  terminates without raising (the model is a total function and the result is \<open>Inr\<close>),
  the returned lists satisfy \<open>len(a) + len(b) \<le> L\<close>, and when that already holds at
  entry both lists are returned unchanged.
\<close>

theorem truncate_seq_pair_spec:
  assumes "0 \<le> L"
  shows "\<exists>a' b'. truncate_seq_pair a b L = Inr (a', b')
           \<and> int (length a' + length b') \<le> L
           \<and> (int (length a + length b) \<le> L \<longrightarrow> a' = a \<and> b' = b)"
proof -
  from truncate_seq_pair_returns[OF assms, of a b] obtain a' b'
    where r: "truncate_seq_pair a b L = Inr (a', b')" and l: "int (length a' + length b') \<le> L"
    by blast
  have "int (length a + length b) \<le> L \<longrightarrow> a' = a \<and> b' = b"
    using r by (auto simp: truncate_seq_pair_noop)
  with r l show ?thesis by blast
qed

theorem truncate_seq_pair_spec_witness:
  "\<exists>a' b'. truncate_seq_pair [1, 2, 3, 4::int] [5, 6] 3 = Inr (a', b')
      \<and> int (length a' + length b') \<le> 3
      \<and> (if int (length [1, 2, 3, 4::int] + length [5, 6::int]) \<le> 3 then a' = [1, 2, 3, 4] \<and> b' = [5, 6]
         else True)"
  using truncate_seq_pair_spec[of 3 "[1, 2, 3, 4::int]" "[5, 6]"] by simp


section \<open>The resume order of \<open>OneSegmentDataset\<close>\<close>

lemma length_shuffle_from: "length (shuffle_from draw i x) = length x"
  by (induction i arbitrary: x) (simp_all add: Let_def)

lemma length_shuffle [simp]: "length (shuffle draw x) = length x"
  by (simp add: shuffle_def length_shuffle_from)

lemma mset_shuffle_from: "i < length x \<Longrightarrow> mset (shuffle_from draw i x) = mset x"
proof (induction i arbitrary: x)
  case 0
  then show ?case by simp
next
  case (Suc i)
  let ?j = "draw (Suc i) mod (Suc i + 1)"
  have j: "?j < length x" using Suc.prems by (simp add: less_le_trans[OF mod_less_divisor])
  have "mset (x[Suc i := x ! ?j, ?j := x ! Suc i]) = mset x"
    using Suc.prems j by (simp add: mset_swap)
  moreover have "mset (shuffle_from draw i (x[Suc i := x ! ?j, ?j := x ! Suc i]))
                   = mset (x[Suc i := x ! ?j, ?j := x ! Suc i])"
    using Suc.prems by (intro Suc.IH) simp
  ultimately show ?case by (simp add: Let_def)
qed

lemma mset_shuffle [simp]: "mset (shuffle draw x) = mset x"
proof (cases x)
  case Nil
  then show ?thesis by (simp add: shuffle_def)
next
  case (Cons a as)
  then show ?thesis by (simp add: shuffle_def mset_shuffle_from)
qed

lemma set_shuffle [simp]: "set (shuffle draw x) = set x"
  using mset_shuffle[of draw x] by (metis set_mset_mset)

lemma distinct_shuffle [simp]: "distinct (shuffle draw x) = distinct x"
  using mset_shuffle[of draw x] by (metis mset_eq_imp_distinct_iff)

lemma set_fromkeys: "set (fromkeys seen xs) = set xs - set seen"
  by (induction seen xs rule: fromkeys.induct) auto

lemma distinct_fromkeys: "distinct (fromkeys seen xs)"
  by (induction seen xs rule: fromkeys.induct) (auto simp: set_fromkeys)

lemma fromkeys_cong: "set seen = set seen' \<Longrightarrow> fromkeys seen xs = fromkeys seen' xs"
proof (induction xs arbitrary: seen seen')
  case Nil
  then show ?case by simp
next
  case (Cons x xs)
  have "fromkeys (x # seen) xs = fromkeys (x # seen') xs"
    by (rule Cons.IH) (simp add: Cons.prems)
  moreover have "fromkeys seen xs = fromkeys seen' xs"
    by (rule Cons.IH) (rule Cons.prems)
  ultimately show ?case using Cons.prems by simp
qed

lemma fromkeys_distinct_prefix:
  "distinct xs \<Longrightarrow> set xs \<inter> set seen = {} \<Longrightarrow>
     fromkeys seen (xs @ ys) = xs @ fromkeys (xs @ seen) ys"
proof (induction xs arbitrary: seen)
  case Nil
  then show ?case by simp
next
  case (Cons x xs)
  have "fromkeys (x # seen) (xs @ ys) = xs @ fromkeys (xs @ x # seen) ys"
    using Cons.prems by (intro Cons.IH) auto
  moreover have "fromkeys (xs @ x # seen) ys = fromkeys (x # xs @ seen) ys"
    by (rule fromkeys_cong) auto
  ultimately show ?case using Cons.prems by simp
qed

lemma dict_fromkeys_resume:
  assumes "distinct last_indices"
  shows "dict_fromkeys (last_indices @ fresh) = last_indices @ fromkeys last_indices fresh"
  using fromkeys_distinct_prefix[OF assms, of "[]" fresh] by (simp add: dict_fromkeys_def)

text \<open>The index order of every constructed object is free of duplicates.\<close>

lemma onesegment_init_distinct:
  assumes "onesegment_init T mp dp docs ss pp pickled sidecar file draw = Inr self"
  shows "distinct (indices self)"
proof -
  have "distinct (dict_fromkeys xs)" for xs :: "nat list"
    by (simp add: dict_fromkeys_def distinct_fromkeys)
  with assms show ?thesis
    by (auto simp: onesegment_init_def Let_def split: sum.splits option.splits if_splits)
qed

lemma dump_last_indices_suffix:
  assumes "dump_last_indices self steps = Inr (Some persisted)"
  shows "\<exists>k. persisted = drop k (indices self)"
  using assms by (auto simp: dump_last_indices_def split: option.splits if_splits)

text \<open>
  C7.  Let \<open>prev\<close> be any constructed \<open>OneSegmentDataset\<close> and \<open>persisted\<close> the suffix
  that \<open>dump_last_indices\<close> writes for it.  When an object is then constructed from a
  pickle of \<open>N\<close> documents with that sidecar content, its order is the persisted suffix
  followed by a freshly shuffled \<open>range(N)\<close> with later duplicates removed; and if every
  persisted index is below \<open>N\<close>, the order is a permutation of \<open>0, ..., N-1\<close> that begins
  with the persisted suffix.
\<close>

theorem resume_order:
  assumes prev: "onesegment_init Tp mp0 dp0 docs0 ss0 pp0 pickled0 sidecar0 file0 draw0 = Inr prev"
    and dump: "dump_last_indices prev steps = Inr (Some persisted)"
    and load: "onesegment_init T mp dp docs ss (Some pp) pickled (Some persisted) file draw = Inr self"
  shows "indices self = dict_fromkeys (persisted @ shuffle draw [0..<length pickled])
     \<and> (set persisted \<subseteq> {0..<length pickled} \<longrightarrow>
          mset (indices self) = mset [0..<length pickled]
          \<and> take (length persisted) (indices self) = persisted)"
proof -
  let ?fresh = "shuffle draw [0..<length pickled]"
  have idx: "indices self = dict_fromkeys (persisted @ ?fresh)"
    using load by (auto simp: onesegment_init_def Let_def split: sum.splits)
  from dump_last_indices_suffix[OF dump] obtain k where "persisted = drop k (indices prev)" ..
  with onesegment_init_distinct[OF prev] have d: "distinct persisted" by simp
  have split: "indices self = persisted @ fromkeys persisted ?fresh"
    using idx dict_fromkeys_resume[OF d] by simp
  have "mset (indices self) = mset [0..<length pickled]" if "set persisted \<subseteq> {0..<length pickled}"
  proof -
    have "distinct (indices self)"
      by (simp add: idx dict_fromkeys_def distinct_fromkeys)
    moreover have "set (indices self) = set [0..<length pickled]"
      using that by (auto simp: split set_fromkeys)
    ultimately show ?thesis
      by (metis distinct_upt set_eq_iff_mset_eq_distinct)
  qed
  moreover have "take (length persisted) (indices self) = persisted"
    by (simp add: split)
  ultimately show ?thesis using idx by blast
qed

theorem resume_order_witness:
  "set [3, 0::nat] \<subseteq> {0..<length [[11], [12], [13], [14::int]]}
   \<and> mset (indices \<lparr>os_all_documents = [[11], [12], [13], [14]], indices = [3, 0, 1, 2],
                     last_indices_path = Some ''c.pickle.index''\<rparr>)
       = mset [0..<length [[11], [12], [13], [14::int]]]
   \<and> take (length [3, 0::nat])
        (indices \<lparr>os_all_documents = [[11], [12], [13], [14]], indices = [3, 0, 1, 2],
                  last_indices_path = Some ''c.pickle.index''\<rparr>) = [3, 0]"
proof -
  have prev: "onesegment_init toy_tokenizer 8 None [] True (Some ''c.pickle'')
                [[11], [12], [13], [14]] None [] (\<lambda>i. 0)
              = Inr \<lparr>os_all_documents = [[11], [12], [13], [14]], indices = [1, 2, 3, 0],
                     last_indices_path = Some ''c.pickle.index''\<rparr>"
    by code_simp
  have dump: "dump_last_indices \<lparr>os_all_documents = [[11], [12], [13], [14]], indices = [1, 2, 3, 0],
                     last_indices_path = Some ''c.pickle.index''\<rparr> 6 = Inr (Some [3, 0])"
    by code_simp
  have load: "onesegment_init toy_tokenizer 8 None [] True (Some ''c.pickle'')
                [[11], [12], [13], [14]] (Some [3, 0]) [] (\<lambda>i. i)
              = Inr \<lparr>os_all_documents = [[11], [12], [13], [14]], indices = [3, 0, 1, 2],
                     last_indices_path = Some ''c.pickle.index''\<rparr>"
    by code_simp
  have sub: "set [3, 0::nat] \<subseteq> {0..<length [[11], [12], [13], [14::int]]}"
    by simp
  from resume_order[OF prev dump load] sub show ?thesis
    by blast
qed


section \<open>Skipping records of the epoch cache\<close>

lemma skip_records_Inr:
  "skip_records n f = Inr rest \<longleftrightarrow> n \<le> length f \<and> rest = drop n f"
proof (induction n arbitrary: f)
  case 0
  then show ?case by auto
next
  case (Suc n)
  show ?case
  proof (cases f)
    case Nil
    then show ?thesis by (simp add: pickle_load_def)
  next
    case (Cons r rs)
    then show ?thesis using Suc.IH[of rs] by (simp add: pickle_load_def)
  qed
qed

text \<open>
  C10.  When \<open>PreTensorPretrainDataset\<close> is constructed with declared length \<open>L\<close> and
  \<open>last_step = k > 0\<close>, exactly \<open>k\<close> records have been read from the cache file (the
  file held at least \<open>k\<close>, and the cursor stands after the \<open>k\<close>-th), while \<open>__len__\<close>
  is still \<open>L\<close>.  If the file held \<open>L\<close> records, then \<open>L - k\<close> are left: \<open>n\<close> further
  reads succeed exactly when \<open>n \<le> L - k\<close>, the next one meets the end of the file.
\<close>

theorem pretensor_skip_keeps_length:
  assumes "pretensor_init records L k = Inr self" and "0 < k"
  shows "0 \<le> L \<and> nat k \<le> length records \<and> file_rest self = drop (nat k) records
     \<and> pretensor_len self = L
     \<and> (int (length records) = L \<longrightarrow>
          int (length (file_rest self)) = L - k
          \<and> (\<forall>n. (\<exists>rest. skip_records n (file_rest self) = Inr rest) \<longleftrightarrow> int n \<le> L - k))"
proof -
  from assms have L: "0 \<le> L"
    by (auto simp: pretensor_init_def split: if_splits)
  from assms L obtain rest where s: "skip_records (nat k) records = Inr rest"
    and self: "self = \<lparr>file_rest = rest, length_attr = L\<rparr>"
    by (auto simp: pretensor_init_def split: sum.splits)
  from s have k: "nat k \<le> length records" and rest: "rest = drop (nat k) records"
    by (simp_all add: skip_records_Inr)
  have len: "pretensor_len self = L" by (simp add: self pretensor_len_def)
  have fr: "file_rest self = drop (nat k) records" by (simp add: self rest)
  have "int (length (file_rest self)) = L - k" if "int (length records) = L"
    using that k assms(2) by (simp add: fr)
  moreover have "(\<exists>rest. skip_records n (file_rest self) = Inr rest) \<longleftrightarrow> int n \<le> L - k"
    if "int (length records) = L" for n
    using that k assms(2) by (auto simp: skip_records_Inr fr)
  ultimately show ?thesis using L k fr len by blast
qed

theorem pretensor_skip_keeps_length_witness:
  "file_rest \<lparr>file_rest = [30, 40::nat], length_attr = 4\<rparr> = drop (nat 2) [10, 20, 30, 40]
   \<and> pretensor_len \<lparr>file_rest = [30, 40::nat], length_attr = 4\<rparr> = 4
   \<and> int (length (file_rest \<lparr>file_rest = [30, 40::nat], length_attr = 4\<rparr>)) = 4 - 2"
proof -
  have init: "pretensor_init [10, 20, 30, 40::nat] 4 2 = Inr \<lparr>file_rest = [30, 40], length_attr = 4\<rparr>"
    by code_simp
  have k: "(0::int) < 2" by simp
  have len: "int (length [10, 20, 30, 40::nat]) = 4" by simp
  from pretensor_skip_keeps_length[OF init k] len show ?thesis
    by blast
qed


section \<open>Properties of the feature encoders\<close>

subsection \<open>Rounding and the target length\<close>

lemma py_round_nonneg: "0 \<le> x \<Longrightarrow> 0 \<le> py_round x"
proof -
  assume "0 \<le> x"
  then have "0 \<le> \<lfloor>x\<rfloor>" by simp
  then show ?thesis by (simp add: py_round_def Let_def)
qed

lemma py_round_upper: "of_int (py_round x) \<le> x + 1 / 2"
proof -
  have f: "rat_of_int \<lfloor>x\<rfloor> \<le> x" by simp
  show ?thesis
  proof (cases "x - of_int \<lfloor>x\<rfloor> < 1 / 2")
    case True
    then have "py_round x = \<lfloor>x\<rfloor>" by (simp add: py_round_def Let_def)
    with f show ?thesis by linarith
  next
    case False
    then have g: "rat_of_int \<lfloor>x\<rfloor> + 1 \<le> x + 1 / 2" by linarith
    have "py_round x \<le> \<lfloor>x\<rfloor> + 1" by (simp add: py_round_def Let_def)
    then have "rat_of_int (py_round x) \<le> rat_of_int (\<lfloor>x\<rfloor> + 1)" by (simp only: of_int_le_iff)
    with g show ?thesis by simp
  qed
qed

lemma mask_prediction_nonneg: "0 \<le> p \<Longrightarrow> 0 \<le> mask_prediction tokens p"
  by (simp add: mask_prediction_def py_round_nonneg)

lemma randint_range: "randint lo hi r = Inr v \<Longrightarrow> lo \<le> v \<and> v \<le> hi"
proof -
  assume a: "randint lo hi r = Inr v"
  then have le: "lo \<le> hi" and v: "v = lo + int r mod (hi - lo + 1)"
    by (auto simp: randint_def split: if_splits)
  from le have pos: "0 < hi - lo + 1" by simp
  have "0 \<le> int r mod (hi - lo + 1)" using pos by (rule pos_mod_sign)
  moreover have "int r mod (hi - lo + 1) < hi - lo + 1" using pos by (rule pos_mod_bound)
  ultimately show ?thesis using v by linarith
qed

lemma short_target_le: "short_target R t = Inr t' \<Longrightarrow> t' \<le> t"
  by (auto simp: short_target_def split: option.splits dest: randint_range)

subsection \<open>Candidate positions\<close>

lemma mask_candidate_pos_in_range: "pos \<in> set (mask_candidate_pos S tokens) \<Longrightarrow> pos < length tokens"
  by (simp add: mask_candidate_pos_def)

lemma length_mask_candidate_pos:
  "length (mask_candidate_pos S tokens)
     = length (filter (\<lambda>t. t \<noteq> cls_id S \<and> t \<noteq> sep_id S) tokens)"
proof (induction tokens rule: rev_induct)
  case Nil
  then show ?case by (simp add: mask_candidate_pos_def)
next
  case (snoc x xs)
  have "filter (\<lambda>i. (xs @ [x]) ! i \<noteq> cls_id S \<and> (xs @ [x]) ! i \<noteq> sep_id S) [0..<length xs]
          = filter (\<lambda>i. xs ! i \<noteq> cls_id S \<and> xs ! i \<noteq> sep_id S) [0..<length xs]"
    by (rule filter_cong) (simp_all add: nth_append)
  with snoc show ?case by (simp add: mask_candidate_pos_def)
qed

lemma length_mask_candidate_pos_le: "length (mask_candidate_pos S tokens) \<le> length tokens"
  using length_filter_le[of _ "[0..<length tokens]"] by (simp add: mask_candidate_pos_def)

subsection \<open>The masking loops keep the length\<close>

lemma length_substitute [simp]: "length (substitute S d pos tokens) = length tokens"
  by (simp add: substitute_def split: subst.splits)

lemma length_mask_each [simp]: "length (mask_each S sub k ps tokens) = length tokens"
  by (induction ps arbitrary: k tokens) simp_all

lemma span_inner_length: "length (fst (span_inner S sub mp ws st)) = length (fst st)"
proof (induction ws arbitrary: st)
  case Nil
  then show ?case by (cases st) simp
next
  case (Cons w ws)
  obtain tokens masked where st: "st = (tokens, masked)" by (cases st)
  show ?case using Cons.IH[of "(substitute S (sub (nat masked)) w tokens, masked + 1)"]
    by (simp add: st Let_def)
qed

lemma span_outer_length: "length (fst (span_outer S sub mp wss st)) = length (fst st)"
proof (induction wss arbitrary: st)
  case Nil
  then show ?case by simp
next
  case (Cons ws wss)
  show ?case using Cons.IH[of "span_inner S sub mp ws st"]
    by (simp add: Let_def span_inner_length)
qed

text \<open>
  As long as \<open>masked\<close> is below \<open>mask_prediction\<close> when a loop starts, it never passes
  it.
\<close>

lemma span_inner_bound:
  "snd st < mp \<Longrightarrow> snd st \<le> snd (span_inner S sub mp ws st) \<and> snd (span_inner S sub mp ws st) \<le> mp"
proof (induction ws arbitrary: st)
  case Nil
  then show ?case by (cases st) simp
next
  case (Cons w ws)
  obtain tokens masked where st: "st = (tokens, masked)" by (cases st)
  show ?case
  proof (cases "masked + 1 = mp")
    case True
    then show ?thesis by (simp add: st Let_def)
  next
    case False
    with Cons.prems st have "masked + 1 < mp" by simp
    with Cons.IH[of "(substitute S (sub (nat masked)) w tokens, masked + 1)"] False
    show ?thesis by (simp add: st Let_def)
  qed
qed

lemma span_outer_bound:
  "snd st < mp \<Longrightarrow> snd st \<le> snd (span_outer S sub mp wss st) \<and> snd (span_outer S sub mp wss st) \<le> mp"
proof (induction wss arbitrary: st)
  case Nil
  then show ?case by simp
next
  case (Cons ws wss)
  let ?st' = "span_inner S sub mp ws st"
  from span_inner_bound[OF Cons.prems, of S sub ws]
  have b: "snd st \<le> snd ?st'" "snd ?st' \<le> mp" by simp_all
  show ?case
  proof (cases "snd ?st' = mp")
    case True
    with b show ?thesis by (simp add: Let_def)
  next
    case False
    with b have "snd ?st' < mp" by simp
    from Cons.IH[OF this] b False show ?thesis by (simp add: Let_def)
  qed
qed

lemma span_mask_length_le:
  "span_mask_length R mw mp \<le> mw \<and> span_mask_length R mw mp \<le> mp"
  by (simp add: span_mask_length_def Let_def)

lemma span_mask_cases:
  assumes "span_mask S R mw p tokens = Inr (tokens', masked)"
  shows "(span_mask_length R mw (mask_prediction tokens p) \<le> 0 \<and> tokens' = tokens \<and> masked = 0)
       \<or> (0 < span_mask_length R mw (mask_prediction tokens p)
          \<and> (\<exists>wss. span_outer S (substitution R) (mask_prediction tokens p) wss (tokens, 0)
                = (tokens', masked)))"
proof (cases "0 < span_mask_length R mw (mask_prediction tokens p)")
  case True
  let ?cand = "mask_candidate_pos S tokens"
  let ?n = "span_sections ?cand (span_mask_length R mw (mask_prediction tokens p))"
  from assms True have
    "(case array_split ?cand ?n of
        Inl e \<Rightarrow> Inl e
      | Inr ws \<Rightarrow> Inr (span_outer S (substitution R) (mask_prediction tokens p)
                        (shuffle (shuffle_draw R) ws) (tokens, 0)))
     = Inr (tokens', masked)"
    unfolding span_mask_def Let_def by simp
  then obtain ws where
    "span_outer S (substitution R) (mask_prediction tokens p) (shuffle (shuffle_draw R) ws) (tokens, 0)
       = (tokens', masked)"
    by (cases "array_split ?cand ?n") simp_all
  with True show ?thesis by blast
next
  case False
  with assms have "tokens' = tokens \<and> masked = 0"
    unfolding span_mask_def Let_def by simp
  with False show ?thesis by simp
qed

lemma span_mask_length_eq:
  assumes "span_mask S R mw p tokens = Inr (tokens', masked)"
  shows "length tokens' = length tokens"
proof -
  from span_mask_cases[OF assms] show ?thesis
  proof
    assume "span_mask_length R mw (mask_prediction tokens p) \<le> 0 \<and> tokens' = tokens \<and> masked = 0"
    then show ?thesis by simp
  next
    assume "0 < span_mask_length R mw (mask_prediction tokens p)
          \<and> (\<exists>wss. span_outer S (substitution R) (mask_prediction tokens p) wss (tokens, 0)
                = (tokens', masked))"
    then obtain wss where
      w: "span_outer S (substitution R) (mask_prediction tokens p) wss (tokens, 0) = (tokens', masked)"
      by blast
    from span_outer_length[of S "substitution R" "mask_prediction tokens p" wss "(tokens, 0)"]
    show ?thesis unfolding w by simp
  qed
qed

lemma span_mask_count:
  assumes "span_mask S R mw p tokens = Inr (tokens', masked)" and p: "0 \<le> p"
  shows "0 \<le> masked \<and> masked \<le> mask_prediction tokens p"
proof -
  let ?mp = "mask_prediction tokens p"
  from span_mask_cases[OF assms(1)] show ?thesis
  proof
    assume "span_mask_length R mw ?mp \<le> 0 \<and> tokens' = tokens \<and> masked = 0"
    with mask_prediction_nonneg[OF p, of tokens] show ?thesis by simp
  next
    assume a: "0 < span_mask_length R mw ?mp
          \<and> (\<exists>wss. span_outer S (substitution R) ?mp wss (tokens, 0) = (tokens', masked))"
    then obtain wss where
      w: "span_outer S (substitution R) ?mp wss (tokens, 0) = (tokens', masked)"
      by blast
    from a span_mask_length_le[of R mw ?mp] have "snd (tokens, 0::int) < ?mp" by simp
    from span_outer_bound[OF this, of S "substitution R" wss]
    show ?thesis unfolding w by simp
  qed
qed

subsection \<open>Visited positions are inside the token list\<close>

lemma set_py_take: "set (py_take k xs) \<subseteq> set xs"
proof (cases "0 \<le> k")
  case True
  then have "py_take k xs = take (nat k) xs" by (simp add: py_take_def)
  then show ?thesis by (simp add: set_take_subset)
next
  case False
  then have "py_take k xs = take (length xs - nat (- k)) xs" by (simp add: py_take_def)
  then show ?thesis by (simp add: set_take_subset)
qed

lemma length_py_take: "0 \<le> k \<Longrightarrow> int (length (py_take k xs)) \<le> k"
  by (simp add: py_take_def)

lemma pretrain_selected_in_range:
  assumes "pos \<in> set (pretrain_selected S R tokens p)"
  shows "pos < length tokens"
proof -
  have "set (pretrain_selected S R tokens p)
          \<subseteq> set (shuffle (shuffle_draw R) (mask_candidate_pos S tokens))"
    unfolding pretrain_selected_def by (rule set_py_take)
  with assms have "pos \<in> set (mask_candidate_pos S tokens)" by auto
  then show ?thesis by (rule mask_candidate_pos_in_range)
qed

lemma set_sections: "ws \<in> set (sections ks ary) \<Longrightarrow> set ws \<subseteq> set ary"
proof (induction ks arbitrary: ary)
  case Nil
  then show ?case by simp
next
  case (Cons k ks)
  from Cons.prems have "ws = take k ary \<or> ws \<in> set (sections ks (drop k ary))" by simp
  then show ?case
  proof
    assume "ws = take k ary"
    then show ?thesis by (simp add: set_take_subset)
  next
    assume "ws \<in> set (sections ks (drop k ary))"
    then have "set ws \<subseteq> set (drop k ary)" by (rule Cons.IH)
    also have "\<dots> \<subseteq> set ary" by (rule set_drop_subset)
    finally show ?thesis .
  qed
qed

lemma span_words_in_range:
  assumes "array_split (mask_candidate_pos S tokens) n = Inr wss"
    and "ws \<in> set (shuffle draw wss)" and "pos \<in> set ws"
  shows "pos < length tokens"
proof -
  from assms(1) obtain ks where wss: "wss = sections ks (mask_candidate_pos S tokens)"
    unfolding array_split_def Let_def by (cases "n \<le> 0") auto
  from assms(2) have "ws \<in> set wss" by simp
  with wss have "set ws \<subseteq> set (mask_candidate_pos S tokens)"
    by (simp add: set_sections)
  with assms(3) have "pos \<in> set (mask_candidate_pos S tokens)" by auto
  then show ?thesis by (rule mask_candidate_pos_in_range)
qed


subsection \<open>The special tokens\<close>

lemma pretrain_special_tokens_shape:
  assumes "pretrain_special_tokens S R tokens_a tokens_b max_position = Inr (ta, tb)"
  shows "\<exists>t a b. short_target R (if tokens_b \<noteq> [] then max_position - 3 else max_position - 2) = Inr t
           \<and> truncate_seq_pair tokens_a tokens_b t = Inr (a, b)
           \<and> ta = cls_id S # a \<and> tb = b @ [sep_id S, sep_id S]"
proof -
  let ?t0 = "if tokens_b \<noteq> [] then max_position - 3 else max_position - 2"
  from assms obtain t where t: "short_target R ?t0 = Inr t"
    unfolding pretrain_special_tokens_def by (cases "short_target R ?t0") simp_all
  from assms t obtain a b where tr: "truncate_seq_pair tokens_a tokens_b t = Inr (a, b)"
    unfolding pretrain_special_tokens_def
    by (cases "truncate_seq_pair tokens_a tokens_b t") auto
  from assms t tr have "ta = cls_id S # a \<and> tb = b @ [sep_id S, sep_id S]"
    unfolding pretrain_special_tokens_def by (simp add: Let_def)
  with t tr show ?thesis by blast
qed

lemma pretrain_special_tokens_fit:
  assumes "pretrain_special_tokens S R tokens_a tokens_b max_position = Inr (ta, tb)"
    and "tokens_b \<noteq> []"
  shows "int (length (ta @ tb)) \<le> max_position"
proof -
  from pretrain_special_tokens_shape[OF assms(1)] assms(2) obtain t a b where
    t: "short_target R (max_position - 3) = Inr t"
    and tr: "truncate_seq_pair tokens_a tokens_b t = Inr (a, b)"
    and sh: "ta = cls_id S # a" "tb = b @ [sep_id S, sep_id S]"
    by auto
  from short_target_le[OF t] have "t \<le> max_position - 3" .
  moreover from truncate_seq_pair_Inr[OF tr] have "int (length a + length b) \<le> t" by simp
  ultimately show ?thesis by (simp add: sh)
qed

lemma onesegment_special_tokens_shape:
  assumes "onesegment_special_tokens S R tokens_a max_position = Inr tokens"
  shows "\<exists>a. tokens = cls_id S # a @ [sep_id S] \<and> set a \<subseteq> set tokens_a
           \<and> int (length a) \<le> max_position - 2"
proof -
  from assms obtain t where t: "short_target R (max_position - 2) = Inr t"
    unfolding onesegment_special_tokens_def by (cases "short_target R (max_position - 2)") simp_all
  from assms t obtain a b where tr: "truncate_seq_pair tokens_a [] t = Inr (a, b)"
    unfolding onesegment_special_tokens_def
    by (cases "truncate_seq_pair tokens_a [] t") auto
  from assms t tr have tok: "tokens = cls_id S # a @ [sep_id S]"
    unfolding onesegment_special_tokens_def by simp
  from truncate_seq_pair_Inr[OF tr] have "int (length a) \<le> t" "set a \<subseteq> set tokens_a"
    by simp_all
  with short_target_le[OF t] tok show ?thesis by auto
qed

lemma padded_length: "int (length xs) \<le> m \<Longrightarrow> int (length (xs @ py_repeat x (m - int (length xs)))) = m"
  by (simp add: py_repeat_def)

subsection \<open>C1: the lengths of the returned arrays\<close>

lemma pretrain_feature_lengths:
  assumes "pretrain_convert_example_to_features S R tokens_a tokens_b is_next max_position p = Inr f"
    and "tokens_b \<noteq> []"
  shows "int (length (input_ids f)) = max_position \<and> int (length (segment_ids f)) = max_position
       \<and> int (length (input_mask f)) = max_position \<and> int (length (label_ids f)) = max_position"
proof -
  from assms(1) obtain ta tb where
    sp: "pretrain_special_tokens S R tokens_a tokens_b max_position = Inr (ta, tb)"
    unfolding pretrain_convert_example_to_features_def
    by (cases "pretrain_special_tokens S R tokens_a tokens_b max_position") auto
  let ?n = "length ta + length tb"
  from pretrain_special_tokens_fit[OF sp assms(2)] have fit: "int ?n \<le> max_position" by simp
  then have pad: "?n + nat (max_position - int ?n) = nat max_position" by simp
  from assms(1) sp have
    "length (input_ids f) = ?n + nat (max_position - int ?n)"
    "length (segment_ids f) = ?n + nat (max_position - int ?n)"
    "length (input_mask f) = ?n + nat (max_position - int ?n)"
    "length (label_ids f) = ?n + nat (max_position - int ?n)"
    unfolding pretrain_convert_example_to_features_def
    by (auto simp: Let_def py_repeat_def)
  with pad fit show ?thesis by simp
qed

lemma onesegment_feature_lengths:
  assumes "onesegment_convert_example_to_features S R mw tokens_a max_position p = Inr g"
  shows "int (length (input_ids g)) = max_position \<and> int (length (label_ids g)) = max_position
       \<and> segment_ids g = [] \<and> input_mask g = []"
proof -
  from assms obtain tokens where
    sp: "onesegment_special_tokens S R tokens_a max_position = Inr tokens"
    unfolding onesegment_convert_example_to_features_def
    by (cases "onesegment_special_tokens S R tokens_a max_position") auto
  from assms sp obtain tokens' masked where
    sm: "span_mask S R mw p tokens = Inr (tokens', masked)"
    unfolding onesegment_convert_example_to_features_def
    by (cases "span_mask S R mw p tokens") auto
  from span_mask_length_eq[OF sm] have len: "length tokens' = length tokens" .
  from onesegment_special_tokens_shape[OF sp] have fit: "int (length tokens) \<le> max_position"
    by auto
  from assms sp sm have g: "g = \<lparr>input_ids = tokens' @ py_repeat (pad_id S) (max_position - int (length tokens')),
      segment_ids = [], input_mask = [], is_next_label = EmptyList,
      label_ids = tokens @ py_repeat (pad_id S) (max_position - int (length tokens'))\<rparr>"
    unfolding onesegment_convert_example_to_features_def by (simp add: Let_def)
  from fit len have "int (length (input_ids g)) = max_position"
    unfolding g using padded_length[of tokens' max_position "pad_id S"] by simp
  moreover from fit have "int (length (label_ids g)) = max_position"
    unfolding g len using padded_length[of tokens max_position "pad_id S"] by simp
  ultimately show ?thesis by (simp add: g)
qed

text \<open>
  C1, as the code has it.  Whenever the two-segment encoder returns a feature for a
  non-empty second segment, \<open>input_ids\<close>, \<open>segment_ids\<close>, \<open>input_mask\<close> and \<open>label_ids\<close>
  all have length \<open>max_position\<close>.  Whenever the single-segment encoder returns a feature,
  \<open>input_ids\<close> and \<open>label_ids\<close> have length \<open>max_position\<close>, while \<open>segment_ids\<close> and
  \<open>input_mask\<close> are returned as the empty list.
\<close>

theorem feature_lengths:
  "(tokens_b \<noteq> [] \<and> pretrain_convert_example_to_features S R tokens_a tokens_b is_next max_position p = Inr f
      \<longrightarrow> int (length (input_ids f)) = max_position \<and> int (length (segment_ids f)) = max_position
        \<and> int (length (input_mask f)) = max_position \<and> int (length (label_ids f)) = max_position)
   \<and> (onesegment_convert_example_to_features S R mw tokens_a max_position p = Inr g
      \<longrightarrow> int (length (input_ids g)) = max_position \<and> int (length (label_ids g)) = max_position
        \<and> segment_ids g = [] \<and> input_mask g = [])"
  using pretrain_feature_lengths onesegment_feature_lengths by blast

theorem feature_lengths_witness:
  "int (length (input_ids \<lparr>input_ids = [2, 10, 11, 20, 3, 3, 0, 0],
              segment_ids = [0, 0, 0, 1, 1, 1, 0, 0], input_mask = [1, 1, 1, 1, 1, 1, 0, 0],
              is_next_label = Label 1, label_ids = [2, 10, 11, 20, 3, 3, 0, 0]\<rparr>)) = 8
   \<and> int (length (input_ids \<lparr>input_ids = [2, 10, 11, 3, 0, 0, 0, 0], segment_ids = [],
              input_mask = [], is_next_label = EmptyList,
              label_ids = [2, 10, 11, 3, 0, 0, 0, 0]\<rparr>)) = 8"
proof -
  have two: "pretrain_convert_example_to_features toy_ids draws_one [10, 11] [20] 1 8 (3 / 20)
      = Inr \<lparr>input_ids = [2, 10, 11, 20, 3, 3, 0, 0],
              segment_ids = [0, 0, 0, 1, 1, 1, 0, 0], input_mask = [1, 1, 1, 1, 1, 1, 0, 0],
              is_next_label = Label 1, label_ids = [2, 10, 11, 20, 3, 3, 0, 0]\<rparr>"
    by code_simp
  have one: "onesegment_convert_example_to_features toy_ids draws_one 10 [10, 11] 8 (3 / 20)
      = Inr \<lparr>input_ids = [2, 10, 11, 3, 0, 0, 0, 0], segment_ids = [], input_mask = [],
              is_next_label = EmptyList, label_ids = [2, 10, 11, 3, 0, 0, 0, 0]\<rparr>"
    by code_simp
  have ne: "[20::int] \<noteq> []" by simp
  from feature_lengths[where tokens_b = "[20]" and S = toy_ids and R = draws_one
      and tokens_a = "[10, 11]" and is_next = 1 and max_position = 8 and p = "3 / 20"
      and mw = 10] two one ne
  show ?thesis by blast
qed

text \<open>
  The claim as stated fails on the single-segment encoder: the feature returned for the
  two-token example with \<open>max_position = 6\<close> has an empty \<open>segment_ids\<close>.
\<close>

theorem feature_lengths_counterexample:
  "onesegment_convert_example_to_features toy_ids draws_one 10 [10, 11] 6 (3 / 20)
     = Inr \<lparr>input_ids = [2, 10, 11, 3, 0, 0], segment_ids = [], input_mask = [],
             is_next_label = EmptyList, label_ids = [2, 10, 11, 3, 0, 0]\<rparr>
   \<and> int (length (segment_ids \<lparr>input_ids = [2, 10, 11, 3, 0, 0], segment_ids = [], input_mask = [],
             is_next_label = EmptyList, label_ids = [2, 10, 11, 3, 0, 0]\<rparr>)) \<noteq> 6"
  by code_simp

subsection \<open>C2: the separators of the two-segment encoder\<close>

text \<open>
  C2 says that for a non-empty second segment the encoded sequence is
  \<open>[CLS] ++ a ++ b ++ [SEP]\<close> with segment ids \<open>0^(|a|+1) ++ 1^(|b|+1)\<close>.  The code
  appends \<open>SEP\<close> to \<open>b\<close> twice: for \<open>a = [10, 11]\<close>, \<open>b = [20]\<close>, \<open>max_position = 8\<close> the
  token lists are \<open>[CLS, 10, 11]\<close> and \<open>[20, SEP, SEP]\<close>, and the segment ids are
  \<open>0^3 ++ 1^3\<close> (then padding).
\<close>

theorem pretrain_appends_two_separators:
  "pretrain_special_tokens toy_ids draws_one [10, 11] [20] 8 = Inr ([2, 10, 11], [20, 3, 3])
   \<and> pretrain_convert_example_to_features toy_ids draws_one [10, 11] [20] 1 8 (3 / 20)
       = Inr \<lparr>input_ids = [2, 10, 11, 20, 3, 3, 0, 0],
               segment_ids = [0, 0, 0, 1, 1, 1, 0, 0], input_mask = [1, 1, 1, 1, 1, 1, 0, 0],
               is_next_label = Label 1, label_ids = [2, 10, 11, 20, 3, 3, 0, 0]\<rparr>"
  by code_simp

text \<open>
  The same doubled separator, with an empty second segment: the target length
  \<open>max_pos - 2\<close> reserves two special tokens, three are added, and an example that
  fills the target comes out one longer than \<open>max_pos = 4\<close>.
\<close>

lemma pretrain_empty_second_segment:
  "pretrain_convert_example_to_features toy_ids draws_one [10, 11] [] 1 4 (3 / 20)
     = Inr \<lparr>input_ids = [2, 10, 11, 3, 3], segment_ids = [0, 0, 0, 1, 1],
             input_mask = [1, 1, 1, 1, 1], is_next_label = Label 1,
             label_ids = [2, 10, 11, 3, 3]\<rparr>"
  by code_simp

subsection \<open>C4: the number of visited positions\<close>

text \<open>
  C4.  For a non-negative \<open>masked_lm_prob\<close> and every token sequence, the two-segment
  encoder visits at most \<open>round(len(tokens) * masked_lm_prob)\<close> positions (the length of
  \<open>mask_candidate_pos[:mask_prediction]\<close>), and whenever the span masking of the
  single-segment encoder returns, its counter \<open>masked\<close> of visited positions is between
  \<open>0\<close> and that bound.
\<close>

theorem masked_count_bounded:
  assumes "0 \<le> masked_lm_prob"
  shows "int (length (pretrain_selected S R tokens masked_lm_prob))
           \<le> mask_prediction tokens masked_lm_prob
     \<and> (span_mask S R mw masked_lm_prob tokens = Inr (tokens', masked)
          \<longrightarrow> 0 \<le> masked \<and> masked \<le> mask_prediction tokens masked_lm_prob)"
proof -
  have "int (length (pretrain_selected S R tokens masked_lm_prob))
           \<le> mask_prediction tokens masked_lm_prob"
    unfolding pretrain_selected_def
    by (rule length_py_take) (rule mask_prediction_nonneg[OF assms])
  moreover have "0 \<le> masked \<and> masked \<le> mask_prediction tokens masked_lm_prob"
    if "span_mask S R mw masked_lm_prob tokens = Inr (tokens', masked)"
    using that assms by (rule span_mask_count)
  ultimately show ?thesis by blast
qed


theorem masked_count_bounded_witness:
  "int (length (pretrain_selected toy_ids draws_one
                  [2, 10, 11, 12, 13, 14, 15, 16, 17, 18, 19, 3] (3 / 20)))
     \<le> mask_prediction [2, 10, 11, 12, 13, 14, 15, 16, 17, 18, 19, 3] (3 / 20)
   \<and> (2::int) \<le> mask_prediction [2, 10, 11, 12, 13, 14, 15, 16, 17, 18, 19, 3] (3 / 20)"
proof -
  have p: "(0::rat) \<le> 3 / 20" by simp
  have sm: "span_mask toy_ids
              (draws_two\<lparr>substitution := (\<lambda>k. if k = 0 then Mask else Random 77)\<rparr>) 10 (3 / 20)
              [2, 10, 11, 12, 13, 14, 15, 16, 17, 18, 19, 3]
            = Inr ([2, 10, 11, 4, 77, 14, 15, 16, 17, 18, 19, 3], 2)"
    by code_simp
  from masked_count_bounded[OF p, where S = toy_ids and R = draws_one
      and tokens = "[2, 10, 11, 12, 13, 14, 15, 16, 17, 18, 19, 3]"]
  have a: "int (length (pretrain_selected toy_ids draws_one
                  [2, 10, 11, 12, 13, 14, 15, 16, 17, 18, 19, 3] (3 / 20)))
     \<le> mask_prediction [2, 10, 11, 12, 13, 14, 15, 16, 17, 18, 19, 3] (3 / 20)"
    by blast
  from masked_count_bounded[OF p, where S = toy_ids
      and R = "draws_two\<lparr>substitution := (\<lambda>k. if k = 0 then Mask else Random 77)\<rparr>"
      and tokens = "[2, 10, 11, 12, 13, 14, 15, 16, 17, 18, 19, 3]" and mw = 10] sm
  have "(2::int) \<le> mask_prediction [2, 10, 11, 12, 13, 14, 15, 16, 17, 18, 19, 3] (3 / 20)"
    by blast
  with a show ?thesis by blast
qed


subsection \<open>C5: the section count of the span split\<close>

lemma candidates_without_reserved:
  assumes "cls_id S \<notin> set a" and "sep_id S \<notin> set a"
  shows "length (mask_candidate_pos S (cls_id S # a @ [sep_id S])) = length a"
proof -
  have "filter (\<lambda>t. t \<noteq> cls_id S \<and> t \<noteq> sep_id S) a = a"
    using assms by (intro filter_True) auto
  then show ?thesis by (simp add: length_mask_candidate_pos)
qed

lemma mask_prediction_le_candidates:
  "mask_prediction (c # a @ [s]) (3 / 20) \<le> int (length a)"
proof -
  let ?x = "rat_of_nat (length (c # a @ [s])) * (3 / 20)"
  have "rat_of_int (py_round ?x) \<le> ?x + 1 / 2" by (rule py_round_upper)
  also have "?x + 1 / 2 < rat_of_int (int (length a) + 1)"
  proof -
    have n: "(0::rat) \<le> of_nat (length a)" by simp
    have "?x = (of_nat (length a) + 2) * (3 / 20)" by simp
    also have "\<dots> + 1 / 2 < of_nat (length a) + 1" using n by (simp add: field_simps)
    finally show ?thesis by simp
  qed
  finally have "py_round ?x < int (length a) + 1" by (simp only: of_int_less_iff)
  then show ?thesis by (simp add: mask_prediction_def)
qed

text \<open>
  C5, as the code has it.  The span length is at most \<open>max_words_length\<close> and at most
  \<open>mask_prediction\<close>.  For an example that contains neither the \<open>CLS\<close> nor the \<open>SEP\<close>
  id, and the default \<open>masked_lm_prob = 0.15\<close>, a positive span length never exceeds the
  number of candidate positions, the section count passed to \<open>np.array_split\<close> is at
  least \<open>1\<close>, and the span masking returns.
\<close>

theorem span_sections_positive:
  assumes "cls_id S \<notin> set tokens_a" and "sep_id S \<notin> set tokens_a"
    and "onesegment_special_tokens S R tokens_a max_position = Inr tokens"
  shows "span_mask_length R mw (mask_prediction tokens (3 / 20)) \<le> mw
     \<and> span_mask_length R mw (mask_prediction tokens (3 / 20)) \<le> mask_prediction tokens (3 / 20)
     \<and> (0 < span_mask_length R mw (mask_prediction tokens (3 / 20)) \<longrightarrow>
          span_mask_length R mw (mask_prediction tokens (3 / 20))
            \<le> int (length (mask_candidate_pos S tokens))
          \<and> 1 \<le> span_sections (mask_candidate_pos S tokens)
                   (span_mask_length R mw (mask_prediction tokens (3 / 20)))
          \<and> (\<exists>r. span_mask S R mw (3 / 20) tokens = Inr r))"
proof -
  let ?mp = "mask_prediction tokens (3 / 20)"
  let ?ml = "span_mask_length R mw ?mp"
  let ?cand = "mask_candidate_pos S tokens"
  from onesegment_special_tokens_shape[OF assms(3)] obtain a where
    tok: "tokens = cls_id S # a @ [sep_id S]" and sub: "set a \<subseteq> set tokens_a"
    by blast
  from sub assms(1,2) have "cls_id S \<notin> set a" "sep_id S \<notin> set a" by auto
  then have cand: "length ?cand = length a"
    unfolding tok by (rule candidates_without_reserved)
  have mp: "?mp \<le> int (length ?cand)"
    unfolding cand unfolding tok by (rule mask_prediction_le_candidates)
  have le: "?ml \<le> mw" "?ml \<le> ?mp"
    using span_mask_length_le[of R mw ?mp] by simp_all
  have pos: "?ml \<le> int (length ?cand) \<and> 1 \<le> span_sections ?cand ?ml
             \<and> (\<exists>r. span_mask S R mw (3 / 20) tokens = Inr r)" if ml: "0 < ?ml"
  proof -
    from le(2) mp have fit: "?ml \<le> int (length ?cand)" by simp
    with ml have "0 < int (length ?cand) div ?ml"
      by (simp add: pos_imp_zdiv_pos_iff)
    then have sec: "1 \<le> span_sections ?cand ?ml"
      by (simp add: span_sections_def)
    then obtain wss where "array_split ?cand (span_sections ?cand ?ml) = Inr wss"
      by (simp add: array_split_def Let_def)
    with ml have "\<exists>r. span_mask S R mw (3 / 20) tokens = Inr r"
      by (simp add: span_mask_def Let_def)
    with fit sec show ?thesis by blast
  qed
  from le pos show ?thesis by blast
qed

theorem span_sections_positive_witness:
  "span_mask_length draws_two 10
      (mask_prediction [2, 10, 11, 12, 13, 14, 15, 16, 17, 18, 19, 3] (3 / 20)) = 2
   \<and> 1 \<le> span_sections (mask_candidate_pos toy_ids [2, 10, 11, 12, 13, 14, 15, 16, 17, 18, 19, 3])
             (span_mask_length draws_two 10
                (mask_prediction [2, 10, 11, 12, 13, 14, 15, 16, 17, 18, 19, 3] (3 / 20)))"
proof -
  have c: "cls_id toy_ids \<notin> set [10, 11, 12, 13, 14, 15, 16, 17, 18, 19]"
    by (simp add: toy_ids_def)
  have s: "sep_id toy_ids \<notin> set [10, 11, 12, 13, 14, 15, 16, 17, 18, 19]"
    by (simp add: toy_ids_def)
  have sp: "onesegment_special_tokens toy_ids draws_two [10, 11, 12, 13, 14, 15, 16, 17, 18, 19] 12
              = Inr [2, 10, 11, 12, 13, 14, 15, 16, 17, 18, 19, 3]"
    by code_simp
  have ml: "span_mask_length draws_two 10
      (mask_prediction [2, 10, 11, 12, 13, 14, 15, 16, 17, 18, 19, 3] (3 / 20)) = 2"
    by code_simp
  from span_sections_positive[OF c s sp, of 10] ml show ?thesis
    by simp
qed

text \<open>
  The claim as stated fails on an example that contains reserved ids: seven \<open>SEP\<close> ids
  and one ordinary token with \<open>max_pos = 12\<close> give ten tokens, \<open>mask_prediction = 2\<close>,
  a geometric draw of \<open>2\<close> clamped to \<open>2\<close>, one candidate position, and so the section
  count \<open>int(1/2) = 0\<close>, at which \<open>np.array_split\<close> raises.
\<close>

theorem span_sections_counterexample:
  "onesegment_special_tokens toy_ids draws_two [3, 3, 3, 3, 3, 3, 3, 10] 12
      = Inr [2, 3, 3, 3, 3, 3, 3, 3, 10, 3]
   \<and> span_mask_length draws_two 10 (mask_prediction [2, 3, 3, 3, 3, 3, 3, 3, 10, 3] (3 / 20)) = 2
   \<and> mask_candidate_pos toy_ids [2, 3, 3, 3, 3, 3, 3, 3, 10, 3] = [8]
   \<and> span_sections [8] 2 = 0
   \<and> onesegment_convert_example_to_features toy_ids draws_two 10 [3, 3, 3, 3, 3, 3, 3, 10] 12 (3 / 20)
      = Inl (ValueError ''number sections must be larger than 0.'')"
  by code_simp


section \<open>Loading a corpus into \<open>PretrainDataset\<close>\<close>

lemma doc_samples_Suc: "doc_samples d (Suc n) = doc_samples d n @ [\<lparr>doc_id = d, line = n\<rparr>]"
  by (simp add: doc_samples_def)

lemma length_doc_samples [simp]: "length (doc_samples d n) = n"
  by (simp add: doc_samples_def)

lemma samples_from_snoc:
  "samples_from k (docs @ [doc]) = samples_from k docs @ doc_samples (k + length docs) (length doc - 1)"
  by (induction docs arbitrary: k) simp_all



lemma load_inv_init:
  "load_inv [] \<lparr>max_pos = m, on_memory = om, reserved = S, all_documents = [], sample_to_doc = [],
                corpus_lines = 0, num_docs = 0, current_doc = 0, current_random_doc = 0\<rparr>"
  by (simp add: load_inv_def doc_samples_def)

text \<open>Closing a non-empty open document keeps the invariant and never fails.\<close>

lemma close_doc_inv:
  assumes "load_inv doc self" and "doc \<noteq> []"
  shows "\<exists>self'. close_doc self doc = Inr self' \<and> load_inv [] self'
           \<and> on_memory self' = on_memory self \<and> all_documents self' = all_documents self @ [doc]
           \<and> corpus_lines self' = corpus_lines self"
proof -
  let ?docs = "all_documents self"
  from assms(2) obtain n where n: "length doc = Suc n" by (cases doc) auto
  from assms(1) have s2d: "sample_to_doc self
      = samples_from 0 ?docs @ doc_samples (length ?docs) n @ [\<lparr>doc_id = length ?docs, line = n\<rparr>]"
    by (simp add: load_inv_def n doc_samples_Suc)
  then have popped: "pop (sample_to_doc self) = Inr (samples_from 0 ?docs @ doc_samples (length ?docs) n)"
    by (simp add: pop_def butlast_append)
  let ?self' = "self\<lparr>all_documents := ?docs @ [doc],
                      sample_to_doc := samples_from 0 ?docs @ doc_samples (length ?docs) n\<rparr>"
  have c: "close_doc self doc = Inr ?self'"
    by (simp add: close_doc_def popped)
  have "load_inv [] ?self'"
    using assms by (simp add: load_inv_def samples_from_snoc n doc_samples_def)
  with c show ?thesis by simp
qed

lemma load_text_inv:
  assumes "load_inv doc self"
  shows "\<exists>doc' self'. load_text T self doc text = Inr (doc', self') \<and> load_inv doc' self'
           \<and> on_memory self' = on_memory self"
proof (cases "strip text = []")
  case blank: True
  show ?thesis
  proof (cases "doc = []")
    case True
    with blank assms show ?thesis by (simp add: load_text_def)
  next
    case False
    from close_doc_inv[OF assms False] obtain self' where
      "close_doc self doc = Inr self'" "load_inv [] self'" "on_memory self' = on_memory self"
      by blast
    with blank False show ?thesis by (simp add: load_text_def)
  qed
next
  case False
  let ?self' = "self\<lparr>sample_to_doc :=
                       sample_to_doc self @ [\<lparr>doc_id = length (all_documents self), line = length doc\<rparr>],
                     corpus_lines := corpus_lines self + 1\<rparr>"
  let ?doc' = "doc @ [convert_tokens_to_ids T (tokenize T (strip text))]"
  from False have l: "load_text T self doc text = Inr (?doc', ?self')"
    by (simp add: load_text_def Let_def)
  have "load_inv ?doc' ?self'"
    using assms by (simp add: load_inv_def doc_samples_Suc)
  with l show ?thesis by simp
qed

lemma load_all_inv:
  assumes "load_inv doc self"
  shows "\<exists>doc' self'. load_all T texts (doc, self) = Inr (doc', self') \<and> load_inv doc' self'
           \<and> on_memory self' = on_memory self"
  using assms
proof (induction texts arbitrary: doc self)
  case Nil
  then show ?case by simp
next
  case (Cons t texts)
  from load_text_inv[OF Cons.prems, of T t] obtain doc1 self1 where
    1: "load_text T self doc t = Inr (doc1, self1)" "load_inv doc1 self1"
       "on_memory self1 = on_memory self"
    by blast
  from Cons.IH[OF 1(2)] obtain doc' self' where
    "load_all T texts (doc1, self1) = Inr (doc', self')" "load_inv doc' self'"
    "on_memory self' = on_memory self1"
    by blast
  with 1 show ?case by simp
qed

text \<open>Blank lines with no open document change nothing.\<close>

lemma load_all_blank:
  "\<forall>t \<in> set texts. strip t = [] \<Longrightarrow> load_all T texts ([], self) = Inr ([], self)"
  by (induction texts) (simp_all add: load_text_def)



section \<open>Sample lookup, negative draw and construction errors\<close>




subsection \<open>C8: ordinals outside the sample index\<close>




subsection \<open>C6: the negative draw\<close>

text \<open>
  C6 says that the in-memory draw compares the document of the drawn line with the
  document of the current sample.  The code never stores the drawn document:
  \<open>current_random_doc\<close> stays \<open>0\<close>.  With the current sample in document \<open>1\<close>, a first
  draw from document \<open>1\<close> is accepted at once (line \<open>[13]\<close>), although the second draw
  would have come from document \<open>0\<close>.  With the current sample in document \<open>0\<close>, a first
  draw from document \<open>1\<close> is not accepted; the loop runs ten times and returns the tenth
  draw, the line \<open>[12]\<close> of document \<open>0\<close> itself.
\<close>

theorem random_line_ignores_drawn_document:
  "get_corpus_line two_docs 1 = Inr (([13], [14]), two_docs\<lparr>current_doc := 1\<rparr>)
   \<and> get_random_line (two_docs\<lparr>current_doc := 1\<rparr>) (\<lambda>i. if i = 0 then (1, 0) else (0, 0))
       = Inr [13]
   \<and> get_corpus_line two_docs 0 = Inr (([11], [12]), two_docs\<lparr>current_doc := 0\<rparr>)
   \<and> get_random_line (two_docs\<lparr>current_doc := 0\<rparr>) (\<lambda>i. if i = 9 then (0, 1) else (1, 0))
       = Inr [12]"
  by code_simp

subsection \<open>C9: a corpus without documents\<close>

lemma os_load_blank:
  "\<forall>t \<in> set texts. strip t = [] \<Longrightarrow> foldl (os_load_text T mp ss) ([], []) texts = ([], [])"
  by (induction texts) (simp_all add: os_load_text_def)

lemma pretrain_init_blank:
  assumes "\<forall>t \<in> set (if length documents > 0 then documents else file). strip t = []"
    and "reserved_ids T = Inr S" and "om \<or> documents \<noteq> []"
  shows "pretrain_init T mp (Some path) documents om file
           = Inl (ValueError (path @ '' were not includes documents.''))"
proof -
  let ?self0 = "\<lparr>max_pos = mp, on_memory = om, reserved = S, all_documents = [],
                  sample_to_doc = [], corpus_lines = 0, num_docs = 0, current_doc = 0,
                  current_random_doc = 0\<rparr>"
  from load_all_blank[OF assms(1)] have
    "load_all T (if length documents > 0 then documents else file) ([], ?self0) = Inr ([], ?self0)" .
  with assms(2,3) show ?thesis
    unfolding pretrain_init_def by (auto simp: Let_def no_documents_error_def)
qed

lemma onesegment_init_blank:
  assumes "\<forall>t \<in> set (if length documents > 0 then documents else file). strip t = []"
    and "reserved_ids T = Inr S"
  shows "onesegment_init T mp (Some path) documents ss None pickled sidecar file draw
           = Inl (ValueError (path @ '' were not includes documents.''))"
proof -
  from os_load_blank[OF assms(1)] have
    "foldl (os_load_text T mp ss) ([], []) (if length documents > 0 then documents else file)
       = ([], [])" .
  with assms(2) show ?thesis
    unfolding onesegment_init_def by (simp add: Let_def no_documents_error_def)
qed

text \<open>\<open>corpus_lines\<close> counts the non-blank lines read.\<close>

lemma load_text_lines:
  assumes "load_text T self doc t = Inr (doc', self')"
  shows "corpus_lines self' = corpus_lines self + (if strip t = [] then 0 else 1)"
proof (cases "strip t = []")
  case blank: True
  show ?thesis
  proof (cases "doc = []")
    case True
    with blank assms show ?thesis by (simp add: load_text_def)
  next
    case False
    with blank assms have c: "close_doc self doc = Inr self'"
      by (cases "close_doc self doc") (simp_all add: load_text_def)
    then obtain s where
      "self' = self\<lparr>all_documents := all_documents self @ [doc], sample_to_doc := s\<rparr>"
      unfolding close_doc_def by (cases "pop (sample_to_doc self)") auto
    with blank show ?thesis by simp
  qed
next
  case False
  with assms have "self' = self\<lparr>sample_to_doc :=
                       sample_to_doc self @ [\<lparr>doc_id = length (all_documents self), line = length doc\<rparr>],
                     corpus_lines := corpus_lines self + 1\<rparr>"
    by (simp add: load_text_def Let_def)
  with False show ?thesis by simp
qed

lemma load_all_lines:
  "load_all T texts (doc, self) = Inr (doc', self') \<Longrightarrow>
     corpus_lines self' = corpus_lines self + length (filter (\<lambda>t. strip t \<noteq> []) texts)"
proof (induction texts arbitrary: doc self)
  case Nil
  then show ?case by simp
next
  case (Cons t texts)
  from Cons.prems obtain doc1 self1 where
    1: "load_text T self doc t = Inr (doc1, self1)"
    and 2: "load_all T texts (doc1, self1) = Inr (doc', self')"
    by (cases "load_text T self doc t") auto
  from Cons.IH[OF 2] load_text_lines[OF 1] show ?case by simp
qed

text \<open>An in-memory construction over a source with a non-blank line succeeds.\<close>

lemma pretrain_init_nonblank:
  assumes nb: "\<exists>t \<in> set (if length documents > 0 then documents else file). strip t \<noteq> []"
    and ids: "reserved_ids T = Inr S" and mem: "om \<or> documents \<noteq> []"
    and src: "dp \<noteq> None \<or> documents \<noteq> []"
  shows "\<exists>self. pretrain_init T mp dp documents om file = Inr self"
proof -
  let ?texts = "if length documents > 0 then documents else file"
  let ?self0 = "\<lparr>max_pos = mp, on_memory = om, reserved = S, all_documents = [],
                  sample_to_doc = [], corpus_lines = 0, num_docs = 0, current_doc = 0,
                  current_random_doc = 0\<rparr>"
  from load_all_inv[OF load_inv_init, of T ?texts mp om S] obtain doc1 self1 where
    la: "load_all T ?texts ([], ?self0) = Inr (doc1, self1)" and inv1: "load_inv doc1 self1"
    by auto
  from nb have "filter (\<lambda>t. strip t \<noteq> []) ?texts \<noteq> []"
    by (simp add: filter_empty_conv)
  then have "0 < length (filter (\<lambda>t. strip t \<noteq> []) ?texts)" by simp
  with load_all_lines[OF la] have lines: "0 < corpus_lines self1" by simp
  obtain self2 where
    c: "(if length doc1 > 0 then close_doc self1 doc1 else Inr self1) = Inr self2"
    and ne: "all_documents self2 \<noteq> []"
  proof (cases "doc1 = []")
    case True
    from inv1 True lines have "0 < sum_list (map length (all_documents self1))"
      by (simp add: load_inv_def)
    then have "all_documents self1 \<noteq> []" by auto
    with True that show ?thesis by simp
  next
    case False
    from close_doc_inv[OF inv1 False] False that show ?thesis by auto
  qed
  have given: "\<not> (dp = None \<and> length documents = 0)" using src by auto
  have in_mem: "length documents > 0 \<or> om" using mem by auto
  have "pretrain_init T mp dp documents om file
          = Inr (self2\<lparr>num_docs := length (all_documents self2)\<rparr>)"
    unfolding pretrain_init_def using given in_mem ids la c ne by (simp add: Let_def)
  then show ?thesis by blast
qed

text \<open>
  C9, as the code has it.  Take a tokenizer that resolves the four reserved tokens, a
  \<open>dataset_path\<close>, and as text source the \<open>documents\<close> argument if it is non-empty and
  the lines of the file otherwise.  When the source yields no document (it has only
  blank lines, or none), constructing a \<open>PretrainDataset\<close> that loads into memory
  (\<open>on_memory\<close> set, or documents given) raises the \<open>ValueError\<close> of the emptiness check,
  and so does constructing a \<open>OneSegmentDataset\<close> from text.  When the source has a
  non-blank line, the in-memory \<open>PretrainDataset\<close> construction succeeds, whatever the
  number of usable samples.
\<close>

theorem no_documents_is_fatal:
  assumes "reserved_ids T = Inr S"
  shows "((\<forall>t \<in> set (if length documents > 0 then documents else flines). strip t = []) \<longrightarrow>
            (om \<or> documents \<noteq> [] \<longrightarrow>
               pretrain_init T mp (Some path) documents om flines
                 = Inl (ValueError (path @ '' were not includes documents.'')))
            \<and> onesegment_init T mp (Some path) documents ss None pickled sidecar flines draw
                 = Inl (ValueError (path @ '' were not includes documents.'')))
     \<and> ((\<exists>t \<in> set (if length documents > 0 then documents else flines). strip t \<noteq> [])
            \<and> (om \<or> documents \<noteq> []) \<longrightarrow>
          (\<exists>self. pretrain_init T mp (Some path) documents om flines = Inr self))"
proof (rule conjI)
  show "(\<forall>t \<in> set (if length documents > 0 then documents else flines). strip t = []) \<longrightarrow>
            (om \<or> documents \<noteq> [] \<longrightarrow>
               pretrain_init T mp (Some path) documents om flines
                 = Inl (ValueError (path @ '' were not includes documents.'')))
            \<and> onesegment_init T mp (Some path) documents ss None pickled sidecar flines draw
                 = Inl (ValueError (path @ '' were not includes documents.''))"
  proof (rule impI, rule conjI)
    assume b: "\<forall>t \<in> set (if length documents > 0 then documents else flines). strip t = []"
    show "om \<or> documents \<noteq> [] \<longrightarrow>
               pretrain_init T mp (Some path) documents om flines
                 = Inl (ValueError (path @ '' were not includes documents.''))"
    proof (rule impI)
      assume "om \<or> documents \<noteq> []"
      with b assms show "pretrain_init T mp (Some path) documents om flines
                 = Inl (ValueError (path @ '' were not includes documents.''))"
        by (rule pretrain_init_blank)
    qed
    from b assms
    show "onesegment_init T mp (Some path) documents ss None pickled sidecar flines draw
                 = Inl (ValueError (path @ '' were not includes documents.''))"
      by (rule onesegment_init_blank)
  qed
  show "(\<exists>t \<in> set (if length documents > 0 then documents else flines). strip t \<noteq> [])
            \<and> (om \<or> documents \<noteq> []) \<longrightarrow>
          (\<exists>self. pretrain_init T mp (Some path) documents om flines = Inr self)"
  proof (rule impI)
    assume a: "(\<exists>t \<in> set (if length documents > 0 then documents else flines). strip t \<noteq> [])
            \<and> (om \<or> documents \<noteq> [])"
    then have nb: "\<exists>t \<in> set (if length documents > 0 then documents else flines). strip t \<noteq> []"
      by (rule conjunct1)
    from a have mem: "om \<or> documents \<noteq> []" by (rule conjunct2)
    have src: "Some path \<noteq> None \<or> documents \<noteq> []" by simp
    from nb assms mem src
    show "\<exists>self. pretrain_init T mp (Some path) documents om flines = Inr self"
      by (rule pretrain_init_nonblank)
  qed
qed

theorem no_documents_is_fatal_witness:
  "pretrain_init toy_tokenizer 8 (Some ''corpus.txt'') [] True ['' '', '''']
     = Inl (ValueError (''corpus.txt'' @ '' were not includes documents.''))
   \<and> onesegment_init toy_tokenizer 8 (Some ''corpus.txt'') [] True None [] None ['' '', ''''] (\<lambda>i. 0)
     = Inl (ValueError (''corpus.txt'' @ '' were not includes documents.''))
   \<and> (\<exists>self. pretrain_init toy_tokenizer 8 (Some ''corpus.txt'') [] True [''a'', '' '', ''bb'']
        = Inr self)"
proof -
  have s1: "strip '' '' = []" by code_simp
  have s2: "strip '''' = []" by code_simp
  have s3: "strip ''a'' \<noteq> []" by code_simp
  have blank: "\<forall>t \<in> set (if length ([]::string list) > 0 then [] else ['' '', '''']). strip t = []"
    using s1 s2 by simp
  have mem: "True \<or> ([]::string list) \<noteq> []" by simp
  have "\<exists>t \<in> set (if length ([]::string list) > 0 then [] else [''a'', '' '', ''bb'']).
                    strip t \<noteq> []"
    using s3 by simp
  with mem have nonblank:
    "(\<exists>t \<in> set (if length ([]::string list) > 0 then [] else [''a'', '' '', ''bb'']). strip t \<noteq> [])
     \<and> (True \<or> ([]::string list) \<noteq> [])"
    by (rule conjI[rotated])
  have ids: "reserved_ids toy_tokenizer = Inr toy_ids" by code_simp
  note empty = no_documents_is_fatal[OF ids, where documents = "[]" and flines = "['' '', '''']"
      and om = True and mp = 8 and path = "''corpus.txt''" and ss = True and pickled = "[]"
      and sidecar = None and draw = "\<lambda>i. 0", THEN conjunct1, THEN mp, OF blank]
  note full = no_documents_is_fatal[OF ids, where documents = "[]"
      and flines = "[''a'', '' '', ''bb'']" and om = True and mp = 8 and path = "''corpus.txt''",
      THEN conjunct2, THEN mp, OF nonblank]
  from empty[THEN conjunct1, THEN mp, OF mem] empty[THEN conjunct2] full
  show ?thesis by (intro conjI)
qed

text \<open>
  The claim as stated fails for a source with documents but no usable sample: the file
  with the lines \<open>a\<close>, blank, \<open>bb\<close> has two one-sentence documents, the construction
  succeeds, the sample index is empty and \<open>__len__\<close> is \<open>-1\<close>.
\<close>

theorem no_samples_counterexample:
  "pretrain_init toy_tokenizer 8 (Some ''corpus.txt'') [] True [''a'', '' '', ''bb'']
     = Inr single_lines
   \<and> sample_to_doc single_lines = []
   \<and> pretrain_len single_lines = - 1"
  by code_simp


end
